theory Spec2Isabelle
  imports Complex_Main "HOL-Library.Product_Lexorder" "HOL-Library.Multiset"
begin

section \<open>The trail engine of the cursor animation, embedded in HOL\<close>

text \<open>
  The program is JavaScript. Its numbers are modelled as the real numbers: every
  arithmetic operation is the exact one, \<open>Math.exp\<close> is \<open>exp\<close>, \<open>Math.hypot\<close> is the
  Euclidean norm and \<open>Math.atan2\<close> the two-argument arctangent. Rounding, overflow to
  infinity and NaN are outside the model. Objects are records, arrays are lists, the
  module-level variables of the animation loop are fields of explicit state records
  that each operation takes and returns.
\<close>

subsection \<open>Numeric helpers\<close>

definition clamp :: "real \<Rightarrow> real \<Rightarrow> real \<Rightarrow> real" where
  "clamp v lo hi = min (max v lo) hi"

definition lerp :: "real \<Rightarrow> real \<Rightarrow> real \<Rightarrow> real" where
  "lerp a b t = a + (b - a) * t"

subsection \<open>Critically damped spring (one axis)\<close>

record CritDamped1D =
  pos :: real
  vel :: real
  tau :: real

definition setTimeConstant :: "real \<Rightarrow> CritDamped1D \<Rightarrow> CritDamped1D" where
  "setTimeConstant tc s = s\<lparr>tau := tc\<rparr>"

definition reset :: "CritDamped1D \<Rightarrow> CritDamped1D" where
  "reset s = s\<lparr>pos := 0, vel := 0\<rparr>"

text \<open>\<open>step(dt)\<close> updates the spring and returns the moving flag.\<close>

definition CritDamped1D_step :: "real \<Rightarrow> CritDamped1D \<Rightarrow> CritDamped1D \<times> bool" where
  "CritDamped1D_step dt s =
     (if tau s \<le> dt \<or> \<bar>pos s\<bar> < 1 / 1000 then (reset s, False)
      else
        let om = 4 / tau s;
            a = pos s;
            b = pos s * om + vel s;
            c = exp (- om * dt);
            s' = s\<lparr>pos := (a + b * dt) * c, vel := c * (- a * om - b * dt * om + b)\<rparr>
        in (s', \<bar>pos s'\<bar> \<ge> 1 / 100))"

text \<open>
  The step as the specification words it: the closed form
  \<open>x(t) = (a + b t) e\<^sup>-\<^sup>\<omega>\<^sup>t\<close>, \<open>v(t) = e\<^sup>-\<^sup>\<omega>\<^sup>t (b - \<omega> (a + b t))\<close>
  with \<open>a = x0\<close>, \<open>b = v0 + \<omega> x0\<close>, \<open>\<omega> = 4 / \<tau>\<close>.
\<close>

definition spec_closed_form :: "real \<Rightarrow> CritDamped1D \<Rightarrow> CritDamped1D \<times> bool" where
  "spec_closed_form t s =
     (let w = 4 / tau s;
          a = pos s;
          b = vel s + w * a;
          xt = (a + b * t) * exp (- (w * t));
          vt = exp (- (w * t)) * (b - w * (a + b * t))
      in (s\<lparr>pos := xt, vel := vt\<rparr>, \<bar>xt\<bar> \<ge> 1 / 100))"

subsection \<open>Under-damped overshoot oscillator\<close>

record UnderDampedScalar =
  osc_x :: real
  osc_v :: real
  omega :: real
  zeta :: real

definition UnderDampedScalar_new :: "real \<Rightarrow> real \<Rightarrow> UnderDampedScalar" where
  "UnderDampedScalar_new om ze = \<lparr>osc_x = 0, osc_v = 0, omega = om, zeta = ze\<rparr>"

definition kick :: "real \<Rightarrow> UnderDampedScalar \<Rightarrow> UnderDampedScalar" where
  "kick impulse s = s\<lparr>osc_v := osc_v s + impulse\<rparr>"

definition UnderDampedScalar_step :: "real \<Rightarrow> UnderDampedScalar \<Rightarrow> UnderDampedScalar" where
  "UnderDampedScalar_step dt s =
     (let w = omega s;
          z = zeta s;
          a = - 2 * z * w * osc_v s - (w * w) * osc_x s;
          v1 = osc_v s + a * dt;
          x1 = osc_x s + v1 * dt
      in if \<bar>x1\<bar> < 1 / 10000 \<and> \<bar>v1\<bar> < 1 / 1000
         then s\<lparr>osc_x := 0, osc_v := 0\<rparr>
         else s\<lparr>osc_x := x1, osc_v := v1\<rparr>)"

text \<open>The configured oscillator: \<open>CFG.overshoot.omega = 16\<close>, \<open>CFG.overshoot.zeta = 0.16\<close>.\<close>

definition bounce0 :: UnderDampedScalar where
  "bounce0 = UnderDampedScalar_new 16 (16 / 100)"

text \<open>The quadratic form \<open>96000 x\<^sup>2 + 320 x v + 343 v\<^sup>2\<close>, used to bound the decay.\<close>

definition osc_energy :: "UnderDampedScalar \<Rightarrow> real" where
  "osc_energy s = 96000 * (osc_x s)\<^sup>2 + 320 * osc_x s * osc_v s + 343 * (osc_v s)\<^sup>2"

subsection \<open>Adaptive quality controller (the quality part of the frame tick)\<close>

record performance_cfg =
  enabled :: bool
  targetFrameMs :: real
  framePressureWindowMs :: real
  emaAlpha :: real
  distanceNormPx :: real
  frameWeight :: real
  distanceWeight :: real
  qualityMin :: real
  degradeRatePerSec :: real
  recoverRatePerSec :: real

definition CFG_performance :: performance_cfg where
  "CFG_performance = \<lparr>enabled = True, targetFrameMs = 167 / 10, framePressureWindowMs = 8,
     emaAlpha = 16 / 100, distanceNormPx = 120, frameWeight = 7 / 10, distanceWeight = 3 / 10,
     qualityMin = 38 / 100, degradeRatePerSec = 45 / 10, recoverRatePerSec = 16 / 10\<rparr>"

text \<open>
  The variables of the frame loop that the quality update reads and writes:
  \<open>cursor.last.t\<close>, \<open>perfFrameEmaMs\<close>, \<open>perfTargetQuality\<close>, \<open>perfQuality\<close>.
\<close>

record perf_state =
  last_t :: real
  perfFrameEmaMs :: real
  perfTargetQuality :: real
  perfQuality :: real

definition perf_init :: "performance_cfg \<Rightarrow> real \<Rightarrow> perf_state" where
  "perf_init cfg t0 = \<lparr>last_t = t0, perfFrameEmaMs = targetFrameMs cfg,
     perfTargetQuality = 1, perfQuality = 1\<rparr>"

text \<open>One frame: the time of the frame, whether the caret is visible, the motion distance.\<close>

record frame_input =
  frameNowMs :: real
  cursorVisible :: bool
  motion_dist :: real

definition dtSec_of :: "frame_input \<Rightarrow> perf_state \<Rightarrow> real" where
  "dtSec_of f s = clamp ((frameNowMs f - last_t s) / 1000) 0 (5 / 100)"

definition rafLoop_quality :: "performance_cfg \<Rightarrow> frame_input \<Rightarrow> perf_state \<Rightarrow> perf_state" where
  "rafLoop_quality cfg f s =
     (let dtSec = dtSec_of f s;
          s1 = s\<lparr>last_t := frameNowMs f\<rparr>
      in if \<not> cursorVisible f then s1
         else
           let frameMs = dtSec * 1000
           in if enabled cfg then
                let ema = lerp (perfFrameEmaMs s1) frameMs (emaAlpha cfg);
                    framePressure =
                      clamp ((ema - targetFrameMs cfg) / max (1 / 10000) (framePressureWindowMs cfg)) 0 1;
                    distancePressure =
                      clamp (motion_dist f / max (1 / 10000) (distanceNormPx cfg)) 0 1;
                    hybridPressure =
                      clamp (frameWeight cfg * framePressure + distanceWeight cfg * distancePressure) 0 1;
                    target = 1 - hybridPressure * (1 - qualityMin cfg);
                    q = (if target < perfQuality s1
                         then max target (perfQuality s1 - degradeRatePerSec cfg * dtSec)
                         else min target (perfQuality s1 + recoverRatePerSec cfg * dtSec))
                in s1\<lparr>perfFrameEmaMs := ema, perfTargetQuality := target,
                      perfQuality := clamp q (qualityMin cfg) 1\<rparr>
              else s1\<lparr>perfFrameEmaMs := targetFrameMs cfg, perfTargetQuality := 1, perfQuality := 1\<rparr>)"

text \<open>The frames of a run, oldest first, from the state the loop starts in.\<close>

definition quality_run :: "performance_cfg \<Rightarrow> real \<Rightarrow> frame_input list \<Rightarrow> perf_state" where
  "quality_run cfg t0 fs = foldl (\<lambda>s f. rafLoop_quality cfg f s) (perf_init cfg t0) fs"

subsection \<open>Points, polygons and trail samples\<close>

record point =
  px :: real
  py :: real

type_synonym polygon = "point list"

text \<open>A trail sample \<open>{ t, cx, cy, pts }\<close>.\<close>

record sample =
  s_t :: real
  s_cx :: real
  s_cy :: real
  s_pts :: polygon

definition hypot :: "real \<Rightarrow> real \<Rightarrow> real" where
  "hypot a b = sqrt (a * a + b * b)"

text \<open>\<open>Math.atan2(y, x)\<close>, with values in \<open>(-\<pi>, \<pi>]\<close>.\<close>

definition atan2 :: "real \<Rightarrow> real \<Rightarrow> real" where
  "atan2 y x =
     (if 0 < x then arctan (y / x)
      else if x < 0 then (if 0 \<le> y then arctan (y / x) + pi else arctan (y / x) - pi)
      else if 0 < y then pi / 2
      else if y < 0 then - pi / 2
      else 0)"

text \<open>\<open>Math.round\<close> rounds halves upwards.\<close>

definition js_round :: "real \<Rightarrow> int" where
  "js_round v = \<lfloor>v + 1 / 2\<rfloor>"

text \<open>\<open>a || b\<close> on numbers: the first operand unless it is zero.\<close>

definition js_or :: "real \<Rightarrow> real \<Rightarrow> real" where
  "js_or a b = (if a \<noteq> 0 then a else b)"

definition lerpPoint :: "point \<Rightarrow> point \<Rightarrow> real \<Rightarrow> point" where
  "lerpPoint p0 p1 t = \<lparr>px = lerp (px p0) (px p1) t, py = lerp (py p0) (py p1) t\<rparr>"

definition pointDist :: "point \<Rightarrow> point \<Rightarrow> real" where
  "pointDist a b = hypot (px a - px b) (py a - py b)"

definition clonePolygon :: "polygon \<Rightarrow> polygon" where
  "clonePolygon pts = map (\<lambda>p. \<lparr>px = px p, py = py p\<rparr>) pts"

definition rotatePolygon :: "polygon \<Rightarrow> nat \<Rightarrow> polygon" where
  "rotatePolygon pts offset =
     (let n = length pts in map (\<lambda>i. pts ! ((i + offset) mod n)) [0..<n])"

text \<open>
  The centroid is summed exactly, so it does not depend on the order of the vertices; the
  program adds doubles in list order, and angles computed about a rounded centroid can break
  or create ties in \<open>sortPolygonByAngle\<close>. Statements that hinge on such ties hold for the
  model only.
\<close>

definition polygonCenter :: "polygon \<Rightarrow> point" where
  "polygonCenter pts =
     (let n = real (max 1 (length pts))
      in \<lparr>px = sum_list (map px pts) / n, py = sum_list (map py pts) / n\<rparr>)"

definition polygonSignedArea :: "polygon \<Rightarrow> real" where
  "polygonSignedArea pts =
     (let n = length pts
      in if n < 3 then 0
         else (1 / 2) * (\<Sum>i\<leftarrow>[0..<n]. px (pts ! i) * py (pts ! ((i + 1) mod n))
                                     - px (pts ! ((i + 1) mod n)) * py (pts ! i)))"

text \<open>
  The comparator of \<open>sortPolygonByAngle\<close> returns the first non-zero difference of
  angle, squared radius, \<open>y\<close> and \<open>x\<close>: the lexicographic order of that quadruple.
  \<open>Array.prototype.sort\<close> is stable, as \<open>sort_key\<close> is.
\<close>

definition angle_key :: "point \<Rightarrow> point \<Rightarrow> real \<times> real \<times> real \<times> real" where
  "angle_key c p =
     (let dx = px p - px c; dy = py p - py c
      in (atan2 dy dx, dx * dx + dy * dy, py p, px p))"

definition sortPolygonByAngle :: "polygon \<Rightarrow> polygon" where
  "sortPolygonByAngle pts =
     (if length pts < 3 then clonePolygon pts
      else let c = polygonCenter pts
           in map (\<lambda>p. \<lparr>px = px p, py = py p\<rparr>) (sort_key (angle_key c) pts))"

definition rotateToTopLeftStart :: "polygon \<Rightarrow> polygon" where
  "rotateToTopLeftStart pts =
     (let n = length pts
      in if n = 0 then []
         else let best = foldl (\<lambda>best i.
                   if py (pts ! i) < py (pts ! best)
                      \<or> (py (pts ! i) = py (pts ! best) \<and> px (pts ! i) < px (pts ! best))
                   then i else best) 0 [1..<n]
              in clonePolygon (rotatePolygon pts best))"

definition orient2 :: "point \<Rightarrow> point \<Rightarrow> point \<Rightarrow> real" where
  "orient2 a b c = (px b - px a) * (py c - py a) - (py b - py a) * (px c - px a)"

definition onSegment :: "point \<Rightarrow> point \<Rightarrow> point \<Rightarrow> real \<Rightarrow> bool" where
  "onSegment a b p eps =
     (if \<bar>orient2 a b p\<bar> > eps then False
      else px p \<ge> min (px a) (px b) - eps \<and> px p \<le> max (px a) (px b) + eps
         \<and> py p \<ge> min (py a) (py b) - eps \<and> py p \<le> max (py a) (py b) + eps)"

definition segmentsIntersect :: "point \<Rightarrow> point \<Rightarrow> point \<Rightarrow> point \<Rightarrow> real \<Rightarrow> bool" where
  "segmentsIntersect a b c d eps =
     (let o1 = orient2 a b c; o2 = orient2 a b d; o3 = orient2 c d a; o4 = orient2 c d b;
          properCross =
            (((o1 > eps \<and> o2 < - eps) \<or> (o1 < - eps \<and> o2 > eps))
             \<and> ((o3 > eps \<and> o4 < - eps) \<or> (o3 < - eps \<and> o4 > eps)))
      in if properCross then True
         else if \<bar>o1\<bar> \<le> eps \<and> onSegment a b c eps then True
         else if \<bar>o2\<bar> \<le> eps \<and> onSegment a b d eps then True
         else if \<bar>o3\<bar> \<le> eps \<and> onSegment c d a eps then True
         else if \<bar>o4\<bar> \<le> eps \<and> onSegment c d b eps then True
         else False)"

text \<open>The two nested loops return at the first intersecting pair of non-adjacent edges.\<close>

definition isSelfIntersectingPolygon :: "polygon \<Rightarrow> bool" where
  "isSelfIntersectingPolygon pts =
     (let n = length pts
      in if n < 4 then False
         else list_ex (\<lambda>i. list_ex (\<lambda>j.
                  \<not> (j = i \<or> (i + 1) mod n = j \<or> (j + 1) mod n = i)
                  \<and> segmentsIntersect (pts ! i) (pts ! ((i + 1) mod n))
                        (pts ! j) (pts ! ((j + 1) mod n)) (1 / 1000000))
                [i + 1..<n]) [0..<n])"

definition isValidTrailPolygon :: "polygon \<Rightarrow> bool" where
  "isValidTrailPolygon pts \<longleftrightarrow> length pts \<ge> 3 \<and> \<not> isSelfIntersectingPolygon pts"

definition lerpPolygon :: "polygon \<Rightarrow> polygon \<Rightarrow> real \<Rightarrow> polygon" where
  "lerpPolygon p0 p1 t = map (\<lambda>(a, b). lerpPoint a b t) (zip p0 p1)"

text \<open>
  The candidate search of \<open>matchPolygonToReference\<close>: \<open>bestScore\<close> starts at
  \<open>Infinity\<close> (here \<open>None\<close>), and a candidate replaces the best one when its score is
  strictly smaller.
\<close>

definition match_score :: "polygon \<Rightarrow> polygon \<Rightarrow> real" where
  "match_score cand ref = (\<Sum>i\<leftarrow>[0..<length ref]. pointDist (cand ! i) (ref ! i))"

definition match_better :: "polygon \<Rightarrow> polygon option \<times> real option \<Rightarrow> polygon
    \<Rightarrow> polygon option \<times> real option" where
  "match_better ref acc cand =
     (let score = match_score cand ref
      in case snd acc of
           None \<Rightarrow> (Some cand, Some score)
         | Some bestScore \<Rightarrow> if score < bestScore then (Some cand, Some score) else acc)"

definition matchPolygonToReference :: "polygon \<Rightarrow> polygon \<Rightarrow> polygon" where
  "matchPolygonToReference pts refPts =
     (let n = min (length pts) (length refPts)
      in if n < 3 then clonePolygon pts
         else
           let ref = take n refPts;
               refSign = sgn (polygonSignedArea ref);
               ordered = sortPolygonByAngle (take n pts);
               bases0 = [ordered, rev ordered];
               filtered = filter (\<lambda>b. sgn (polygonSignedArea b) = refSign) bases0;
               bases = (if refSign \<noteq> 0 \<and> filtered \<noteq> [] then filtered else bases0);
               cands = concat (map (\<lambda>base. map (\<lambda>off. rotatePolygon base off) [0..<n]) bases)
           in case fst (foldl (match_better ref) (None, None) cands) of
                Some best \<Rightarrow> clonePolygon best
              | None \<Rightarrow> clonePolygon pts)"

text \<open>The bases that \<open>matchPolygonToReference\<close> searches, after the winding filter.\<close>

definition match_bases :: "polygon \<Rightarrow> polygon \<Rightarrow> polygon list" where
  "match_bases S r =
     (if sgn (polygonSignedArea r) \<noteq> 0
         \<and> filter (\<lambda>b. sgn (polygonSignedArea b) = sgn (polygonSignedArea r)) [S, rev S] \<noteq> []
      then filter (\<lambda>b. sgn (polygonSignedArea b) = sgn (polygonSignedArea r)) [S, rev S]
      else [S, rev S])"

definition canonicalizePolygon :: "polygon \<Rightarrow> polygon option \<Rightarrow> polygon" where
  "canonicalizePolygon pts refPts =
     (let n = length pts
      in if n < 3 then clonePolygon pts
         else
           let ordered = sortPolygonByAngle (take n pts)
           in case refPts of
                Some r \<Rightarrow> if length r = n then matchPolygonToReference ordered r
                          else rotateToTopLeftStart ordered
              | None \<Rightarrow> rotateToTopLeftStart ordered)"

definition clampPointStep :: "point \<Rightarrow> point \<Rightarrow> real \<Rightarrow> point" where
  "clampPointStep from to maxStep =
     (if \<not> maxStep > 0 then \<lparr>px = px to, py = py to\<rparr>
      else
        let dx = px to - px from; dy = py to - py from; d = hypot dx dy
        in if d \<le> maxStep \<or> d < 1 / 1000000 then \<lparr>px = px to, py = py to\<rparr>
           else let s = maxStep / d in \<lparr>px = px from + dx * s, py = py from + dy * s\<rparr>)"

definition maxCornerDelta :: "polygon \<Rightarrow> polygon \<Rightarrow> real" where
  "maxCornerDelta prevPts currPts =
     (let n = min (length prevPts) (length currPts)
      in if n = 0 then 0
         else foldl (\<lambda>m i. max m (pointDist (prevPts ! i) (currPts ! i))) 0 [0..<n])"

definition avgCornerDelta :: "polygon \<Rightarrow> polygon \<Rightarrow> real" where
  "avgCornerDelta prevPts currPts =
     (let n = min (length prevPts) (length currPts)
      in if n = 0 then 0
         else (\<Sum>i\<leftarrow>[0..<n]. pointDist (prevPts ! i) (currPts ! i)) / real n)"

definition perimeter :: "polygon \<Rightarrow> real" where
  "perimeter pts =
     (let n = length pts
      in if n < 2 then 0
         else (\<Sum>i\<leftarrow>[0..<n]. pointDist (pts ! i) (pts ! ((i + 1) mod n))))"

text \<open>
  \<open>enforceLeadingAxisCorner\<close>: the vertex nearest the target gets axis-aligned
  neighbours, if one of the two candidates is a valid polygon.
\<close>

definition leadIdx_of :: "polygon \<Rightarrow> point \<Rightarrow> nat" where
  "leadIdx_of pts targetPoint =
     fst (foldl (\<lambda>(leadIdx, bestD2) i.
            let dx = px (pts ! i) - px targetPoint;
                dy = py (pts ! i) - py targetPoint;
                d2 = dx * dx + dy * dy
            in case bestD2 of
                 None \<Rightarrow> (i, Some d2)
               | Some b \<Rightarrow> if d2 < b then (i, Some d2) else (leadIdx, bestD2))
          (0, None) [0..<length pts])"

definition enforceLeadingAxisCorner :: "polygon \<Rightarrow> point option \<Rightarrow> polygon" where
  "enforceLeadingAxisCorner pts targetPoint =
     (case targetPoint of
        None \<Rightarrow> clonePolygon pts
      | Some tp \<Rightarrow>
          let n = length pts
          in if n < 4 then clonePolygon pts
             else
               let leadIdx = leadIdx_of pts tp;
                   prevIdx = (leadIdx + n - 1) mod n;
                   nextIdx = (leadIdx + 1) mod n;
                   lead = pts ! leadIdx;
                   prev = pts ! prevIdx;
                   next = pts ! nextIdx;
                   candA = (clonePolygon pts)
                             [prevIdx := \<lparr>px = px prev, py = py lead\<rparr>,
                              nextIdx := \<lparr>px = px lead, py = py next\<rparr>];
                   candB = (clonePolygon pts)
                             [prevIdx := \<lparr>px = px lead, py = py prev\<rparr>,
                              nextIdx := \<lparr>px = px next, py = py lead\<rparr>];
                   scoreCandidate =
                     (\<lambda>cand. pointDist (cand ! prevIdx) prev + pointDist (cand ! nextIdx) next);
                   preferA = (scoreCandidate candA \<le> scoreCandidate candB);
                   first = (if preferA then candA else candB);
                   second = (if preferA then candB else candA)
               in if isValidTrailPolygon first then first
                  else if isValidTrailPolygon second then second
                  else clonePolygon pts)"

subsection \<open>Trail store and push pipeline\<close>

text \<open>
  The fields of \<open>CFG.trail\<close> that the store reads. \<open>maxRects\<close> and \<open>maxInterpPerPush\<close>
  are documented as integers \<open>\<ge> 1\<close>; the other fields are numbers.
\<close>

record trail_cfg =
  ttlMs :: real
  maxRects :: nat
  minMovePx :: real
  cornerInterpEpsilonPx :: real
  interpStepPx :: real
  adaptiveInterpStepPx :: real
  maxInterpPerPush :: nat
  twistGuardEnabled :: bool
  temporalSmoothFactor :: real
  smoothReleaseDistancePx :: real
  cornerStepClampPx :: real
  cornerStepSpeedScale :: real

definition CFG_trail :: trail_cfg where
  "CFG_trail = \<lparr>ttlMs = 256, maxRects = 30, minMovePx = 8 / 100,
     cornerInterpEpsilonPx = 2 / 100, interpStepPx = 2 / 100, adaptiveInterpStepPx = 32 / 100,
     maxInterpPerPush = 4, twistGuardEnabled = True, temporalSmoothFactor = 32 / 100,
     smoothReleaseDistancePx = 64, cornerStepClampPx = 8, cornerStepSpeedScale = 4\<rparr>"

text \<open>The module variables \<open>trail\<close> and \<open>lastPushed\<close>.\<close>

record trail_state =
  trail :: "sample list"
  lastPushed :: "sample option"

definition trail_empty :: trail_state where
  "trail_empty = \<lparr>trail = [], lastPushed = None\<rparr>"

text \<open>\<open>if (trail.length > maxRects) trail.splice(0, trail.length - maxRects)\<close>\<close>

definition capTrail :: "trail_cfg \<Rightarrow> sample list \<Rightarrow> sample list" where
  "capTrail cfg tr =
     (if length tr > maxRects cfg then drop (length tr - maxRects cfg) tr else tr)"

text \<open>The polygon after cloning, the first canonicalization and the first correction.\<close>

definition push_prepare :: "trail_cfg \<Rightarrow> trail_state \<Rightarrow> polygon \<Rightarrow> point option \<Rightarrow> polygon" where
  "push_prepare cfg st poly targetPoint =
     (let pts = clonePolygon poly;
          pts = (if twistGuardEnabled cfg
                 then canonicalizePolygon pts (map_option s_pts (lastPushed st)) else pts);
          pts = (if targetPoint \<noteq> None then enforceLeadingAxisCorner pts targetPoint else pts)
      in pts)"

text \<open>
  The processing against the previous sample: canonicalization, temporal smoothing,
  step clamping, canonicalization and correction again.
\<close>

definition push_process :: "trail_cfg \<Rightarrow> sample \<Rightarrow> polygon \<Rightarrow> point option \<Rightarrow> polygon" where
  "push_process cfg lp pts0 targetPoint =
     (let center = polygonCenter pts0;
          pts = (if twistGuardEnabled cfg \<and> length (s_pts lp) = length pts0
                 then canonicalizePolygon pts0 (Some (s_pts lp)) else pts0);
          rawCenterDx = px center - s_cx lp;
          rawCenterDy = py center - s_cy lp;
          rawCenterDist = hypot rawCenterDx rawCenterDy;
          smoothBase = clamp (temporalSmoothFactor cfg) 0 (95 / 100);
          releaseDist = max (1 / 10000) (js_or (smoothReleaseDistancePx cfg) 0);
          release = clamp (rawCenterDist / releaseDist) 0 1;
          smooth = smoothBase * (1 - release);
          pts = (if smooth > 0 \<and> length (s_pts lp) = length pts
                 then lerpPolygon pts (s_pts lp) smooth else pts);
          pts = (if cornerStepClampPx cfg > 0 \<and> length (s_pts lp) = length pts
                 then let speedClamp = max 0 (js_or (cornerStepSpeedScale cfg) 0) * rawCenterDist;
                          maxStep = cornerStepClampPx cfg + speedClamp
                      in map (\<lambda>i. clampPointStep (s_pts lp ! i) (pts ! i) maxStep) [0..<length pts]
                 else pts);
          pts = (if twistGuardEnabled cfg \<and> length (s_pts lp) = length pts
                 then canonicalizePolygon pts (Some (s_pts lp)) else pts);
          pts = (if targetPoint \<noteq> None then enforceLeadingAxisCorner pts targetPoint else pts)
      in pts)"

definition interpMetric :: "sample \<Rightarrow> polygon \<Rightarrow> real" where
  "interpMetric lp pts =
     (let center = polygonCenter pts;
          dx = px center - s_cx lp;
          dy = py center - s_cy lp;
          centerDist = hypot dx dy;
          cornerMax = maxCornerDelta (s_pts lp) pts;
          cornerAvg = avgCornerDelta (s_pts lp) pts;
          shapeDelta = \<bar>perimeter pts - perimeter (s_pts lp)\<bar> * (35 / 100)
      in max (max (max centerDist cornerMax) cornerAvg) shapeDelta)"

definition moveThreshold :: "trail_cfg \<Rightarrow> real" where
  "moveThreshold cfg = max (minMovePx cfg) (cornerInterpEpsilonPx cfg)"

definition adaptiveStep_of :: "trail_cfg \<Rightarrow> real \<Rightarrow> real" where
  "adaptiveStep_of cfg quality =
     max (1 / 10000) (js_or (adaptiveInterpStepPx cfg) (interpStepPx cfg))
       / max quality (1 / 10000)"

definition segments_of :: "trail_cfg \<Rightarrow> real \<Rightarrow> real \<Rightarrow> int" where
  "segments_of cfg quality metric =
     (let adaptiveStep = adaptiveStep_of cfg quality;
          effectiveMaxInterpPerPush = max 1 (js_round (real (maxInterpPerPush cfg) * quality))
      in min effectiveMaxInterpPerPush (max 1 \<lceil>metric / adaptiveStep\<rceil>))"

text \<open>
  The number of intermediate samples as the specification words it:
  \<open>min(maxInterpPerPush * qualityScalar, ceil(movementMetric / adaptiveStep))\<close>.
\<close>

definition spec_segments :: "trail_cfg \<Rightarrow> real \<Rightarrow> real \<Rightarrow> real" where
  "spec_segments cfg quality metric =
     min (real (maxInterpPerPush cfg) * quality)
         (of_int \<lceil>metric / adaptiveStep_of cfg quality\<rceil>)"

text \<open>The polygon of the \<open>i\<close>-th intermediate sample, before its validity check.\<close>

definition interp_entry :: "trail_cfg \<Rightarrow> sample \<Rightarrow> polygon \<Rightarrow> point option \<Rightarrow> int
    \<Rightarrow> polygon \<Rightarrow> nat \<Rightarrow> polygon" where
  "interp_entry cfg lp pts targetPoint segments prevEntryPts i =
     (let t = real i / real_of_int segments;
          entryPts = lerpPolygon (s_pts lp) pts t;
          entryPts = (if twistGuardEnabled cfg \<and> length prevEntryPts = length entryPts
                      then canonicalizePolygon entryPts (Some prevEntryPts) else entryPts);
          entryPts = (if targetPoint \<noteq> None
                      then enforceLeadingAxisCorner entryPts targetPoint else entryPts)
      in entryPts)"

text \<open>
  The interpolation loop over \<open>i = 1 .. segments\<close>, on the triple
  (\<open>trail\<close>, \<open>prevEntryPts\<close>, \<open>pushedAny\<close>); an invalid polygon is skipped.
\<close>

fun interp_loop :: "trail_cfg \<Rightarrow> sample \<Rightarrow> polygon \<Rightarrow> point option \<Rightarrow> real \<Rightarrow> int
    \<Rightarrow> nat list \<Rightarrow> sample list \<times> polygon \<times> bool \<Rightarrow> sample list \<times> polygon \<times> bool" where
  "interp_loop cfg lp pts targetPoint stampMs segments [] acc = acc"
| "interp_loop cfg lp pts targetPoint stampMs segments (i # rest) (tr, prevEntryPts, pushedAny) =
     (let entryPts = interp_entry cfg lp pts targetPoint segments prevEntryPts i
      in if \<not> isValidTrailPolygon entryPts
         then interp_loop cfg lp pts targetPoint stampMs segments rest (tr, prevEntryPts, pushedAny)
         else
           let entryCenter = polygonCenter entryPts;
               entry = \<lparr>s_t = stampMs, s_cx = px entryCenter, s_cy = py entryCenter, s_pts = entryPts\<rparr>
           in interp_loop cfg lp pts targetPoint stampMs segments rest (tr @ [entry], entryPts, True))"

definition pushTrailPolygon :: "trail_cfg \<Rightarrow> polygon \<Rightarrow> point option \<Rightarrow> real \<Rightarrow> real
    \<Rightarrow> trail_state \<Rightarrow> trail_state" where
  "pushTrailPolygon cfg poly targetPoint stampMs quality st =
     (if length poly < 3 then st
      else
        let pts = push_prepare cfg st poly targetPoint
        in if \<not> isValidTrailPolygon pts then st
           else
             case lastPushed st of
               None \<Rightarrow>
                 let center = polygonCenter pts;
                     first = \<lparr>s_t = stampMs, s_cx = px center, s_cy = py center, s_pts = pts\<rparr>
                 in \<lparr>trail = capTrail cfg (trail st @ [first]), lastPushed = Some first\<rparr>
             | Some lp \<Rightarrow>
                 let pts = push_process cfg lp pts targetPoint
                 in if \<not> isValidTrailPolygon pts then st
                    else
                      let metric = interpMetric lp pts
                      in if metric < moveThreshold cfg then st
                         else
                           let segments = segments_of cfg quality metric;
                               (tr, prevEntryPts, pushedAny) =
                                 interp_loop cfg lp pts targetPoint stampMs segments
                                   [1..<nat segments + 1] (trail st, s_pts lp, False)
                           in \<lparr>trail = capTrail cfg tr,
                               lastPushed = (if pushedAny then Some (last tr) else Some lp)\<rparr>)"

text \<open>
  \<open>pruneTrail\<close>: the loop runs \<open>i\<close> from \<open>trail.length - 1\<close> down to 0 and splices out
  the sample at \<open>i\<close> when it is older than the time to live. The argument \<open>Suc i\<close> of
  \<open>prune_loop\<close> is the iteration with index \<open>i\<close>.
\<close>

fun prune_loop :: "real \<Rightarrow> real \<Rightarrow> nat \<Rightarrow> sample list \<Rightarrow> sample list" where
  "prune_loop now ttl 0 tr = tr"
| "prune_loop now ttl (Suc i) tr =
     prune_loop now ttl i
       (if now - s_t (tr ! i) > ttl then take i tr @ drop (Suc i) tr else tr)"

definition pruneTrail :: "trail_cfg \<Rightarrow> real \<Rightarrow> trail_state \<Rightarrow> trail_state" where
  "pruneTrail cfg now st = st\<lparr>trail := prune_loop now (ttlMs cfg) (length (trail st)) (trail st)\<rparr>"

text \<open>Calls on the store, and a run of calls from the empty store.\<close>

datatype trail_call =
  Push polygon "point option" real real
| Prune real

fun trail_apply :: "trail_cfg \<Rightarrow> trail_state \<Rightarrow> trail_call \<Rightarrow> trail_state" where
  "trail_apply cfg st (Push poly targetPoint stampMs quality) =
     pushTrailPolygon cfg poly targetPoint stampMs quality st"
| "trail_apply cfg st (Prune now) = pruneTrail cfg now st"

definition trail_run :: "trail_cfg \<Rightarrow> trail_call list \<Rightarrow> trail_state" where
  "trail_run cfg calls = foldl (trail_apply cfg) trail_empty calls"

text \<open>
  Scenario data: the axis-aligned square of side 2 centred at \<open>(c, 0)\<close>, in the corner
  order top-left, top-right, bottom-right, bottom-left, and the sample that stores it.
\<close>

definition square_at :: "real \<Rightarrow> polygon" where
  "square_at c = [\<lparr>px = c - 1, py = - 1\<rparr>, \<lparr>px = c + 1, py = - 1\<rparr>,
                  \<lparr>px = c + 1, py = 1\<rparr>, \<lparr>px = c - 1, py = 1\<rparr>]"

definition square_sample :: "real \<Rightarrow> real \<Rightarrow> sample" where
  "square_sample stampMs c = \<lparr>s_t = stampMs, s_cx = c, s_cy = 0, s_pts = square_at c\<rparr>"

text \<open>
  Further scenario data: the store after a first push of the square at the origin, the
  square at the origin listed from its bottom-right corner, the polygon of four equal
  points, and a configuration without twist guard and step clamp that smooths by one half.
\<close>

definition store_after_first :: trail_state where
  "store_after_first = \<lparr>trail = [square_sample 0 0], lastPushed = Some (square_sample 0 0)\<rparr>"

definition square_from_bottom_right :: polygon where
  "square_from_bottom_right = [\<lparr>px = 1, py = 1\<rparr>, \<lparr>px = - 1, py = 1\<rparr>,
                               \<lparr>px = - 1, py = - 1\<rparr>, \<lparr>px = 1, py = - 1\<rparr>]"

definition point_polygon :: polygon where
  "point_polygon = [\<lparr>px = 0, py = 0\<rparr>, \<lparr>px = 0, py = 0\<rparr>, \<lparr>px = 0, py = 0\<rparr>, \<lparr>px = 0, py = 0\<rparr>]"

definition CFG_trail_plain :: trail_cfg where
  "CFG_trail_plain = CFG_trail\<lparr>twistGuardEnabled := False, temporalSmoothFactor := 1 / 2,
     cornerStepClampPx := 0\<rparr>"

text \<open>
  The interpolation loop, iteration by iteration: for each index \<open>i\<close> the sample that the
  iteration pushes, or \<open>None\<close> when the interpolated polygon fails the validity check
  (\<open>continue\<close>). \<open>prevEntryPts\<close> is threaded as in the loop: it changes only when a
  sample is pushed.
\<close>

fun interp_steps :: "trail_cfg \<Rightarrow> sample \<Rightarrow> polygon \<Rightarrow> point option \<Rightarrow> real \<Rightarrow> int
    \<Rightarrow> nat list \<Rightarrow> polygon \<Rightarrow> sample option list" where
  "interp_steps cfg lp pts targetPoint stampMs segments [] prevEntryPts = []"
| "interp_steps cfg lp pts targetPoint stampMs segments (i # rest) prevEntryPts =
     (let entryPts = interp_entry cfg lp pts targetPoint segments prevEntryPts i
      in if \<not> isValidTrailPolygon entryPts
         then None # interp_steps cfg lp pts targetPoint stampMs segments rest prevEntryPts
         else
           let entryCenter = polygonCenter entryPts;
               entry = \<lparr>s_t = stampMs, s_cx = px entryCenter, s_cy = py entryCenter, s_pts = entryPts\<rparr>
           in Some entry # interp_steps cfg lp pts targetPoint stampMs segments rest entryPts)"

text \<open>The samples pushed by a list of iterations, in order.\<close>

definition pushed :: "sample option list \<Rightarrow> sample list" where
  "pushed steps = map the (filter (\<lambda>e. e \<noteq> None) steps)"

text \<open>
  The samples that one call of \<open>pushTrailPolygon\<close> pushes onto the buffer, before the cap
  is applied: none when the call returns early, the first sample when nothing was pushed
  before, and otherwise the samples of the interpolation loop.
\<close>

definition appended_samples :: "trail_cfg \<Rightarrow> polygon \<Rightarrow> point option \<Rightarrow> real \<Rightarrow> real
    \<Rightarrow> trail_state \<Rightarrow> sample list" where
  "appended_samples cfg poly targetPoint stampMs quality st =
     (if length poly < 3 then []
      else
        let pts = push_prepare cfg st poly targetPoint
        in if \<not> isValidTrailPolygon pts then []
           else
             case lastPushed st of
               None \<Rightarrow>
                 let center = polygonCenter pts
                 in [\<lparr>s_t = stampMs, s_cx = px center, s_cy = py center, s_pts = pts\<rparr>]
             | Some lp \<Rightarrow>
                 let pts = push_process cfg lp pts targetPoint
                 in if \<not> isValidTrailPolygon pts then []
                    else
                      let metric = interpMetric lp pts
                      in if metric < moveThreshold cfg then []
                         else
                           let segments = segments_of cfg quality metric
                           in pushed (interp_steps cfg lp pts targetPoint stampMs segments
                                        [1..<nat segments + 1] (s_pts lp)))"

text \<open>
  More scenario data: the shipped configuration with room for three samples only; a
  configuration without twist guard, smoothing and step clamp; and the 6 by 8 rectangle
  centred at the origin, scaled by \<open>k\<close> (for \<open>k = - 1\<close> the same rectangle listed from the
  opposite corner), with the sample that stores it.
\<close>

definition CFG_trail_small :: trail_cfg where
  "CFG_trail_small = CFG_trail\<lparr>maxRects := 3\<rparr>"

definition CFG_trail_raw :: trail_cfg where
  "CFG_trail_raw = CFG_trail\<lparr>twistGuardEnabled := False, temporalSmoothFactor := 0,
     cornerStepClampPx := 0\<rparr>"

definition rect_scaled :: "real \<Rightarrow> polygon" where
  "rect_scaled k = [\<lparr>px = - 3 * k, py = - 4 * k\<rparr>, \<lparr>px = 3 * k, py = - 4 * k\<rparr>,
                    \<lparr>px = 3 * k, py = 4 * k\<rparr>, \<lparr>px = - 3 * k, py = 4 * k\<rparr>]"

definition rect_sample :: "real \<Rightarrow> real \<Rightarrow> sample" where
  "rect_sample stampMs k = \<lparr>s_t = stampMs, s_cx = 0, s_cy = 0, s_pts = rect_scaled k\<rparr>"

definition store_after_rect :: trail_state where
  "store_after_rect = \<lparr>trail = [rect_sample 0 1], lastPushed = Some (rect_sample 0 1)\<rparr>"

subsection \<open>Corner control\<close>

text \<open>The fields of \<open>CFG.animation\<close> and \<open>CFG.dynamics\<close> that the corners read.\<close>

record animation_cfg =
  anim_length :: real
  shortLength :: real
  shortMoveThresholdPx :: real

record dynamics_cfg =
  rankFactors :: "real list"
  hardSnap :: bool
  leadingSnapFactor :: real
  leadingSnapThreshold :: real
  maxTrailDistanceFactor :: real
  snapAnimationLength :: real

definition CFG_animation :: animation_cfg where
  "CFG_animation = \<lparr>anim_length = 25 / 100, shortLength = 125 / 1000, shortMoveThresholdPx = 32\<rparr>"

definition CFG_dynamics :: dynamics_cfg where
  "CFG_dynamics = \<lparr>rankFactors = [8 / 10, 4 / 10, 4 / 10, 2 / 10], hardSnap = False,
     leadingSnapFactor = 1 / 10, leadingSnapThreshold = 32 / 100, maxTrailDistanceFactor = 8,
     snapAnimationLength = 16 / 100\<rparr>"

record snap_state =
  useShort :: bool
  leadingness :: real

record Corner =
  rel :: point
  cx :: real
  cy :: real
  sx :: CritDamped1D
  sy :: CritDamped1D
  pdx :: real
  pdy :: real

definition Corner_new :: "animation_cfg \<Rightarrow> point \<Rightarrow> Corner" where
  "Corner_new anim r = \<lparr>rel = r, cx = - 100000, cy = - 100000,
     sx = \<lparr>pos = 0, vel = 0, tau = anim_length anim\<rparr>,
     sy = \<lparr>pos = 0, vel = 0, tau = anim_length anim\<rparr>,
     pdx = - 100000, pdy = - 100000\<rparr>"

definition getDest :: "Corner \<Rightarrow> real \<Rightarrow> real \<Rightarrow> real \<Rightarrow> real \<Rightarrow> point" where
  "getDest c centerX centerY w h = \<lparr>px = centerX + px (rel c) * w, py = centerY + py (rel c) * h\<rparr>"

text \<open>The time constant that \<open>update\<close> gives both springs.\<close>

definition corner_tau :: "animation_cfg \<Rightarrow> dynamics_cfg \<Rightarrow> real \<Rightarrow> snap_state \<Rightarrow> real" where
  "corner_tau anim dyn rankFactor snapState =
     (let base = (if useShort snapState then shortLength anim else anim_length anim)
      in if hardSnap dyn \<and> leadingness snapState \<ge> leadingSnapThreshold dyn
         then snapAnimationLength dyn
         else max (1 / 100) (base * rankFactor))"

text \<open>
  \<open>Corner.update\<close>. The statements are kept in the order of the source: the spring
  offsets are taken from the corner position before the hard-snap jump, and the corner
  position is overwritten from the spring offsets after the step.
\<close>

definition Corner_update :: "animation_cfg \<Rightarrow> dynamics_cfg \<Rightarrow> real \<Rightarrow> real \<Rightarrow> real \<Rightarrow> real \<Rightarrow> real
    \<Rightarrow> real \<Rightarrow> snap_state \<Rightarrow> Corner \<Rightarrow> Corner \<times> bool" where
  "Corner_update anim dyn dt centerX centerY w h rankFactor snapState c =
     (let dest = getDest c centerX centerY w h
      in if pdx c < - 10000
         then (c\<lparr>cx := px dest, cy := py dest, pdx := px dest, pdy := py dest,
                 sx := reset (sx c), sy := reset (sy c)\<rparr>, False)
         else
           let c1 = c\<lparr>sx := (sx c)\<lparr>pos := cx c - px dest\<rparr>, sy := (sy c)\<lparr>pos := cy c - py dest\<rparr>\<rparr>;
               tc = corner_tau anim dyn rankFactor snapState;
               c2 = c1\<lparr>sx := setTimeConstant tc (sx c1), sy := setTimeConstant tc (sy c1)\<rparr>;
               c3 = (if hardSnap dyn \<and> leadingness snapState \<ge> leadingSnapThreshold dyn
                     then let ddx = px dest - pdx c2;
                              ddy = py dest - pdy c2;
                              d = hypot ddx ddy
                          in if d > 1 / 1000
                             then c2\<lparr>cx := cx c2 + ddx * leadingSnapFactor dyn,
                                     cy := cy c2 + ddy * leadingSnapFactor dyn\<rparr>
                             else c2
                     else c2);
               (sx', mx) = CritDamped1D_step dt (sx c3);
               (sy', my) = CritDamped1D_step dt (sy c3);
               c4 = c3\<lparr>sx := sx', sy := sy'\<rparr>;
               c5 = c4\<lparr>cx := px dest + pos (sx c4), cy := py dest + pos (sy c4)\<rparr>;
               maxStretch = maxTrailDistanceFactor dyn * max w h;
               c6 = c5\<lparr>cx := clamp (cx c5) (px dest - maxStretch) (px dest + maxStretch)\<rparr>;
               c7 = c6\<lparr>cy := clamp (cy c6) (py dest - maxStretch) (py dest + maxStretch)\<rparr>;
               c8 = c7\<lparr>pdx := px dest, pdy := py dest\<rparr>
           in (c8, mx \<or> my))"

text \<open>
  What one \<open>update\<close> of an observed corner does to one axis, on the pair (offset of the
  corner from its destination, spring velocity): the spring step from that offset, then
  the stretch clamp of half-width \<open>M\<close>. With it, the decay rate of one tick and a
  weighted sum of \<open>|x|\<close> and \<open>|v + \<omega> x|\<close> that shrinks by that rate.
\<close>

definition axis_tick :: "real \<Rightarrow> real \<Rightarrow> real \<Rightarrow> real \<times> real \<Rightarrow> real \<times> real" where
  "axis_tick dt tc M xv =
     (let r = CritDamped1D_step dt \<lparr>pos = fst xv, vel = snd xv, tau = tc\<rparr>
      in (clamp (pos (fst r)) (- M) M, vel (fst r)))"

definition axis_q :: "real \<Rightarrow> real \<Rightarrow> real" where
  "axis_q dt tc = (1 + 4 / tc * dt) * exp (- (4 / tc * dt))"

definition axis_rate :: "real \<Rightarrow> real \<Rightarrow> real" where
  "axis_rate dt tc = (1 + axis_q dt tc) / 2"

definition axis_energy :: "real \<Rightarrow> real \<Rightarrow> real \<times> real \<Rightarrow> real" where
  "axis_energy dt tc xv =
     \<bar>fst xv\<bar> + 2 * dt / (1 - axis_q dt tc) * \<bar>fst xv * (4 / tc) + snd xv\<bar>"

text \<open>
  A corner is at rest for a target when it has not been observed yet (its next update
  snaps it to the destination) or sits on its destination.
\<close>

definition corner_rest :: "real \<Rightarrow> real \<Rightarrow> real \<Rightarrow> real \<Rightarrow> Corner \<Rightarrow> bool" where
  "corner_rest X Y w h c \<longleftrightarrow>
     pdx c < - 10000 \<or> (cx c = px (getDest c X Y w h) \<and> cy c = py (getDest c X Y w h))"

subsection \<open>Cursor squish controller\<close>

record squish_target =
  t_cx :: real
  t_cy :: real
  t_w :: real
  t_h :: real

record squish_last =
  l_cx :: real
  l_cy :: real
  l_t :: real

record CursorSquish =
  corners :: "Corner list"
  sq_target :: squish_target
  sq_last :: squish_last

text \<open>A caret rectangle \<open>{ left, top, width, height }\<close> and a motion \<open>{ dx, dy, dist, useShort }\<close>.\<close>

record caret_rect =
  r_left :: real
  r_top :: real
  r_width :: real
  r_height :: real

record motion_info =
  m_dx :: real
  m_dy :: real
  m_dist :: real
  m_useShort :: bool

definition NO_MOTION :: motion_info where
  "NO_MOTION = \<lparr>m_dx = 0, m_dy = 0, m_dist = 0, m_useShort = False\<rparr>"

definition REL_CORNERS :: "point list" where
  "REL_CORNERS = [\<lparr>px = - 1 / 2, py = - 1 / 2\<rparr>, \<lparr>px = 1 / 2, py = - 1 / 2\<rparr>,
                  \<lparr>px = 1 / 2, py = 1 / 2\<rparr>, \<lparr>px = - 1 / 2, py = 1 / 2\<rparr>]"

definition CursorSquish_new :: "animation_cfg \<Rightarrow> real \<Rightarrow> CursorSquish" where
  "CursorSquish_new anim now =
     \<lparr>corners = map (Corner_new anim) REL_CORNERS,
      sq_target = \<lparr>t_cx = 0, t_cy = 0, t_w = 8, t_h = 18\<rparr>,
      sq_last = \<lparr>l_cx = 0, l_cy = 0, l_t = now\<rparr>\<rparr>"

definition setTargetFromRect :: "animation_cfg \<Rightarrow> caret_rect \<Rightarrow> CursorSquish
    \<Rightarrow> CursorSquish \<times> motion_info" where
  "setTargetFromRect anim r cs =
     (let ncx = r_left r + r_width r / 2;
          ncy = r_top r + r_height r / 2;
          ddx = ncx - l_cx (sq_last cs);
          ddy = ncy - l_cy (sq_last cs);
          d = hypot ddx ddy;
          us = (d \<le> shortMoveThresholdPx anim)
      in (cs\<lparr>sq_target := \<lparr>t_cx = ncx, t_cy = ncy, t_w = max 1 (r_width r), t_h = max 1 (r_height r)\<rparr>,
             sq_last := (sq_last cs)\<lparr>l_cx := ncx, l_cy := ncy\<rparr>\<rparr>,
          \<lparr>m_dx = ddx, m_dy = ddy, m_dist = d, m_useShort = us\<rparr>))"

definition normalize2 :: "real \<Rightarrow> real \<Rightarrow> point" where
  "normalize2 a b = (let len = hypot a b
                     in if len \<noteq> 0 then \<lparr>px = a / len, py = b / len\<rparr> else \<lparr>px = 0, py = 0\<rparr>)"

text \<open>
  The ranks of the four corners: the indices sorted by alignment (a stable sort, the
  comparator being the difference of the alignments), and \<open>rankOf[idxs[i]] = i\<close>.
\<close>

definition rankOf_of :: "motion_info \<Rightarrow> Corner list \<Rightarrow> nat list" where
  "rankOf_of motionInfo cs =
     (let dir = (if m_dist motionInfo > 1 / 10000
                 then normalize2 (m_dx motionInfo) (m_dy motionInfo) else \<lparr>px = 0, py = 0\<rparr>);
          align = map (\<lambda>c. px (rel c) * px dir + py (rel c) * py dir) cs;
          idxs = sort_key (\<lambda>a. align ! a) [0, 1, 2, 3]
      in foldl (\<lambda>r i. r[idxs ! i := i]) (replicate 4 0) [0..<4])"

text \<open>The loop over the corners, on the pair (updated corners so far, \<open>anyMoving\<close>).\<close>

definition squish_corner :: "animation_cfg \<Rightarrow> dynamics_cfg \<Rightarrow> real \<Rightarrow> motion_info \<Rightarrow> squish_target
    \<Rightarrow> nat list \<Rightarrow> nat \<Rightarrow> Corner \<Rightarrow> Corner \<times> bool" where
  "squish_corner anim dyn dtSec motionInfo tg rankOf i c =
     (let rank = rankOf ! i;
          rankFactor = (if rank < length (rankFactors dyn) then rankFactors dyn ! rank else 1);
          snapState = \<lparr>useShort = m_useShort motionInfo, leadingness = real rank / 3\<rparr>
      in Corner_update anim dyn dtSec (t_cx tg) (t_cy tg) (t_w tg) (t_h tg) rankFactor snapState c)"

definition CursorSquish_step :: "animation_cfg \<Rightarrow> dynamics_cfg \<Rightarrow> real \<Rightarrow> motion_info \<Rightarrow> CursorSquish
    \<Rightarrow> CursorSquish \<times> bool" where
  "CursorSquish_step anim dyn dtSec motionInfo cs =
     (let rankOf = rankOf_of motionInfo (corners cs);
          rs = map (\<lambda>i. squish_corner anim dyn dtSec motionInfo (sq_target cs) rankOf i (corners cs ! i))
                 [0..<length (corners cs)]
      in (cs\<lparr>corners := map fst rs\<rparr>, foldl (\<lambda>anyMoving r. snd r \<or> anyMoving) False rs))"

text \<open>
  \<open>n\<close> ticks with a stationary target: no new target rectangle arrives, so every tick
  steps with \<open>NO_MOTION\<close>. The flag is that of the last tick (\<open>False\<close> before any tick).
\<close>

fun stationary_ticks :: "animation_cfg \<Rightarrow> dynamics_cfg \<Rightarrow> real \<Rightarrow> nat \<Rightarrow> CursorSquish
    \<Rightarrow> CursorSquish \<times> bool" where
  "stationary_ticks anim dyn dtSec 0 cs = (cs, False)"
| "stationary_ticks anim dyn dtSec (Suc n) cs =
     CursorSquish_step anim dyn dtSec NO_MOTION (fst (stationary_ticks anim dyn dtSec n cs))"

text \<open>
  Scenario data: the controller after it has first seen a caret of 8 by 18 centred at the
  origin, and after the tick (of 1/60 s) in which the caret has jumped 100px to the right.
\<close>

definition squish_first_seen :: CursorSquish where
  "squish_first_seen =
     (let (s0, m0) = setTargetFromRect CFG_animation
                       \<lparr>r_left = - 4, r_top = - 9, r_width = 8, r_height = 18\<rparr>
                       (CursorSquish_new CFG_animation 0)
      in fst (CursorSquish_step CFG_animation CFG_dynamics (1 / 60) m0 s0))"

definition squish_after_jump :: CursorSquish where
  "squish_after_jump =
     (let (s1, m1) = setTargetFromRect CFG_animation
                       \<lparr>r_left = 96, r_top = - 9, r_width = 8, r_height = 18\<rparr>
                       squish_first_seen
      in fst (CursorSquish_step CFG_animation CFG_dynamics (1 / 60) m1 s1))"

text \<open>
  The closed form of the horizontal spring of the top-left corner after the jump:
  offset and velocity \<open>k\<close> ticks of 1/60 s after the corner was 100px behind, at rest,
  with the time constant 0.2.
\<close>

definition jump_offset :: "nat \<Rightarrow> real" where
  "jump_offset k = - 100 * (1 + real k / 3) * exp (- (1 / 3)) ^ k"

definition jump_velocity :: "nat \<Rightarrow> real" where
  "jump_velocity k = 2000 * real k / 3 * exp (- (1 / 3)) ^ k"

subsection \<open>Stacked hex-cell trail renderer\<close>









































section \<open>Properties\<close>

text \<open>Evaluating a chain of bindings value first: the bound value is simplified before the body.\<close>

lemma Let_value_cong: "s = t \<Longrightarrow> Let s f = Let t f"
  by simp

subsection \<open>Scalar spring\<close>

lemma clamp_bounds: "lo \<le> hi \<Longrightarrow> lo \<le> clamp v lo hi \<and> clamp v lo hi \<le> hi"
  by (simp add: clamp_def)

lemma clamp_id: "lo \<le> v \<Longrightarrow> v \<le> hi \<Longrightarrow> clamp v lo hi = v"
  by (simp add: clamp_def)

lemma spring_no_rest_in_flow:
  fixes a b c om dt :: real
  assumes c: "c \<noteq> 0" and a: "a \<noteq> 0"
    and p: "(a + b * dt) * c = 0" and v: "c * (- a * om - b * dt * om + b) = 0"
  shows False
proof -
  from p c have s: "a + b * dt = 0" by simp
  from v c have "- a * om - b * dt * om + b = 0" by simp
  moreover have "- a * om - b * dt * om + b = b - om * (a + b * dt)" by (simp add: algebra_simps)
  ultimately have "b = 0" using s by simp
  with s a show False by simp
qed

text \<open>
  Claim C2. The spring step snaps to rest (offset and velocity zero, not moving) exactly
  when the time constant is at most \<open>dt\<close> or the offset is below 0.001 in magnitude;
  otherwise it is the closed-form update of the specification, and it reports moving
  exactly when the new offset is at least 0.01 in magnitude.
\<close>

theorem CritDamped1D_step_spec:
  "((pos (fst (CritDamped1D_step dt s)) = 0 \<and> vel (fst (CritDamped1D_step dt s)) = 0
       \<and> \<not> snd (CritDamped1D_step dt s))
      \<longleftrightarrow> (tau s \<le> dt \<or> \<bar>pos s\<bar> < 1 / 1000))
   \<and> ((tau s \<le> dt \<or> \<bar>pos s\<bar> < 1 / 1000)
        \<longrightarrow> CritDamped1D_step dt s = (s\<lparr>pos := 0, vel := 0\<rparr>, False))
   \<and> (\<not> (tau s \<le> dt \<or> \<bar>pos s\<bar> < 1 / 1000)
        \<longrightarrow> CritDamped1D_step dt s = spec_closed_form dt s
          \<and> (snd (CritDamped1D_step dt s) \<longleftrightarrow> \<bar>pos (fst (CritDamped1D_step dt s))\<bar> \<ge> 1 / 100))"
proof (cases "tau s \<le> dt \<or> \<bar>pos s\<bar> < 1 / 1000")
  case True
  then show ?thesis by (simp add: CritDamped1D_step_def reset_def)
next
  case False
  then have a: "pos s \<noteq> 0" by auto
  have e: "exp (- (4 / tau s) * dt) \<noteq> 0" by simp
  have eq: "CritDamped1D_step dt s = spec_closed_form dt s"
    using False by (simp add: CritDamped1D_step_def spec_closed_form_def Let_def algebra_simps)
  have flag: "snd (CritDamped1D_step dt s) \<longleftrightarrow> \<bar>pos (fst (CritDamped1D_step dt s))\<bar> \<ge> 1 / 100"
    using False by (simp add: CritDamped1D_step_def Let_def)
  have norest: "\<not> (pos (fst (CritDamped1D_step dt s)) = 0 \<and> vel (fst (CritDamped1D_step dt s)) = 0)"
  proof
    assume h: "pos (fst (CritDamped1D_step dt s)) = 0 \<and> vel (fst (CritDamped1D_step dt s)) = 0"
    from h False have p: "(pos s + (pos s * (4 / tau s) + vel s) * dt) * exp (- (4 / tau s) * dt) = 0"
      by (simp add: CritDamped1D_step_def Let_def)
    from h False have v: "exp (- (4 / tau s) * dt) *
        (- pos s * (4 / tau s) - (pos s * (4 / tau s) + vel s) * dt * (4 / tau s)
          + (pos s * (4 / tau s) + vel s)) = 0"
      by (simp add: CritDamped1D_step_def Let_def)
    from spring_no_rest_in_flow [OF e a p v] show False .
  qed
  from False eq flag norest show ?thesis by blast
qed

theorem CritDamped1D_step_spec_witness:
  "\<not> (tau \<lparr>pos = 1, vel = 0, tau = 1\<rparr> \<le> (1 / 10 :: real) \<or> \<bar>pos \<lparr>pos = 1, vel = 0, tau = 1\<rparr>\<bar> < (1 / 1000 :: real))
   \<and> CritDamped1D_step (1 / 10) \<lparr>pos = 1, vel = 0, tau = 1\<rparr>
       = spec_closed_form (1 / 10) \<lparr>pos = 1, vel = 0, tau = 1\<rparr>
   \<and> (tau \<lparr>pos = 1 / 10000, vel = 3, tau = 1\<rparr> \<le> (1 / 10 :: real)
        \<or> \<bar>pos \<lparr>pos = 1 / 10000, vel = 3, tau = 1\<rparr>\<bar> < (1 / 1000 :: real))
   \<and> CritDamped1D_step (1 / 10) \<lparr>pos = 1 / 10000, vel = 3, tau = 1\<rparr>
       = (\<lparr>pos = 0, vel = 0, tau = 1\<rparr>, False)"
  using CritDamped1D_step_spec [of "1 / 10" "\<lparr>pos = 1, vel = 0, tau = 1\<rparr>"]
    CritDamped1D_step_spec [of "1 / 10" "\<lparr>pos = 1 / 10000, vel = 3, tau = 1\<rparr>"]
  by simp

subsection \<open>Overshoot oscillator\<close>

lemma osc_energy_step:
  assumes "omega s = 16" "zeta s = 16/100"
  shows "osc_energy (UnderDampedScalar_step (1/60) s) \<le> (343/375) * osc_energy s"
proof -
  have nn: "0 \<le> osc_energy s"
  proof -
    have "osc_energy s = 95840 * (osc_x s)\<^sup>2 + 183 * (osc_v s)\<^sup>2 + 160 * (osc_x s + osc_v s)\<^sup>2"
      by (simp add: osc_energy_def power2_eq_square algebra_simps)
    then show ?thesis by simp
  qed
  show ?thesis
  proof (cases "UnderDampedScalar_step (1/60) s = s\<lparr>osc_x := 0, osc_v := 0\<rparr>")
    case True
    then show ?thesis using nn by (simp add: osc_energy_def)
  next
    case False
    then have "UnderDampedScalar_step (1/60) s = s\<lparr>osc_x := osc_x s + (osc_v s + (- 2 * zeta s * omega s * osc_v s - (omega s * omega s) * osc_x s) * (1/60)) * (1/60), 
       osc_v := osc_v s + (- 2 * zeta s * omega s * osc_v s - (omega s * omega s) * osc_x s) * (1/60)\<rparr>"
      by (simp add: UnderDampedScalar_step_def Let_def split: if_splits)
    then have "osc_energy (UnderDampedScalar_step (1/60) s) = (343/375) * osc_energy s"
      using assms by (simp add: osc_energy_def power2_eq_square algebra_simps)
    then show ?thesis by simp
  qed
qed

lemma osc_energy_lower: "95840 * (osc_x s)\<^sup>2 + 183 * (osc_v s)\<^sup>2 \<le> osc_energy s"
proof -
  have "osc_energy s = 95840 * (osc_x s)\<^sup>2 + 183 * (osc_v s)\<^sup>2 + 160 * (osc_x s + osc_v s)\<^sup>2"
    by (simp add: osc_energy_def power2_eq_square algebra_simps)
  then show ?thesis by simp
qed

lemma osc_energy_small:
  assumes "osc_energy s < 183 / 1000000"
  shows "\<bar>osc_x s\<bar> < 1 / 10000 \<and> \<bar>osc_v s\<bar> < 1 / 1000"
proof -
  define X where "X = (osc_x s)\<^sup>2"
  define V where "V = (osc_v s)\<^sup>2"
  have x2: "0 \<le> X" and v2: "0 \<le> V" by (simp_all add: X_def V_def)
  from osc_energy_lower [of s] have "95840 * X + 183 * V \<le> osc_energy s"
    by (simp add: X_def V_def)
  with assms x2 v2 have "X < 1 / 100000000" and "V < 1 / 1000000" by linarith+
  then have a: "\<bar>osc_x s\<bar>\<^sup>2 < (1 / 10000)\<^sup>2" and b: "\<bar>osc_v s\<bar>\<^sup>2 < (1 / 1000)\<^sup>2"
    by (simp_all add: X_def V_def power_divide)
  from a have x: "\<bar>osc_x s\<bar> < 1 / 10000" by (rule power2_less_imp_less) simp
  from b have v: "\<bar>osc_v s\<bar> < 1 / 1000" by (rule power2_less_imp_less) simp
  from x v show ?thesis by simp
qed

lemma osc_step_params:
  "omega (UnderDampedScalar_step dt s) = omega s \<and> zeta (UnderDampedScalar_step dt s) = zeta s"
  by (simp add: UnderDampedScalar_step_def Let_def)

lemma osc_energy_iter:
  assumes "omega s = 16" "zeta s = 16/100"
  shows "osc_energy (((UnderDampedScalar_step (1/60)) ^^ k) s) \<le> (343/375) ^ k * osc_energy s
     \<and> omega (((UnderDampedScalar_step (1/60)) ^^ k) s) = 16
     \<and> zeta (((UnderDampedScalar_step (1/60)) ^^ k) s) = 16/100"
proof (induction k)
  case 0
  then show ?case using assms by simp
next
  case (Suc k)
  let ?t = "((UnderDampedScalar_step (1/60)) ^^ k) s"
  from Suc have e: "osc_energy ?t \<le> (343/375) ^ k * osc_energy s"
    and o: "omega ?t = 16" and z: "zeta ?t = 16/100" by simp_all
  have "osc_energy (UnderDampedScalar_step (1/60) ?t) \<le> (343/375) * osc_energy ?t"
    by (rule osc_energy_step [OF o z])
  also have "\<dots> \<le> (343/375) * ((343/375) ^ k * osc_energy s)"
    using e by simp
  finally have "osc_energy (UnderDampedScalar_step (1/60) ?t) \<le> (343/375) ^ Suc k * osc_energy s"
    by simp
  then show ?case using o z by (simp add: osc_step_params)
qed

lemma osc_step_rest:
  assumes o: "omega s = 16" and z: "zeta s = 16/100" and e: "osc_energy s < 183 / 1000000"
  shows "UnderDampedScalar_step (1/60) s = s\<lparr>osc_x := 0, osc_v := 0\<rparr>"
proof -
  define v1 where "v1 = osc_v s + (- 2 * zeta s * omega s * osc_v s - (omega s * omega s) * osc_x s) * (1/60)"
  define x1 where "x1 = osc_x s + v1 * (1/60)"
  define u where "u = s\<lparr>osc_x := x1, osc_v := v1\<rparr>"
  have st: "UnderDampedScalar_step (1/60) s =
      (if \<bar>x1\<bar> < 1 / 10000 \<and> \<bar>v1\<bar> < 1 / 1000 then s\<lparr>osc_x := 0, osc_v := 0\<rparr> else u)"
    by (simp add: UnderDampedScalar_step_def Let_def u_def x1_def v1_def)
  have zz: "zeta s = 4 / 25" using z by simp
  have "osc_energy u = (343/375) * osc_energy s"
    by (simp add: osc_energy_def u_def x1_def v1_def o zz power2_eq_square algebra_simps)
  moreover have "0 \<le> osc_energy s" using osc_energy_lower [of s]
    by (smt (verit) zero_le_power2)
  ultimately have "osc_energy u < 183 / 1000000" using e by simp
  then have "\<bar>osc_x u\<bar> < 1 / 10000 \<and> \<bar>osc_v u\<bar> < 1 / 1000" by (rule osc_energy_small)
  then have "\<bar>x1\<bar> < 1 / 10000 \<and> \<bar>v1\<bar> < 1 / 1000" by (simp add: u_def)
  with st show ?thesis by simp
qed

lemma decay_bound: "(343/375 :: real) ^ 499 * 8575 < 183 / 1000000"
proof -
  have a: "(343/375 :: real) ^ 8 \<le> 1 / 2" by (simp add: power_divide)
  have "(343/375 :: real) ^ 499 = ((343/375) ^ 8) ^ 62 * (343/375) ^ 3"
    by (simp add: power_mult [symmetric] power_add [symmetric])
  also have "\<dots> \<le> (1 / 2) ^ 62 * (343/375) ^ 3"
    using a by (intro mult_right_mono power_mono) simp_all
  finally have "(343/375 :: real) ^ 499 \<le> (1 / 2) ^ 62 * (343/375) ^ 3" .
  then have "(343/375 :: real) ^ 499 * 8575 \<le> (1 / 2) ^ 62 * (343/375) ^ 3 * 8575" by simp
  also have "\<dots> < 183 / 1000000" by (simp add: power_divide)
  finally show ?thesis .
qed

lemma osc_scenario:
  "(UnderDampedScalar_step (1/60) ^^ 500) (kick 5 bounce0) = bounce0"
proof -
  let ?s = "kick 5 bounce0"
  let ?t = "(UnderDampedScalar_step (1/60) ^^ 499) ?s"
  have o: "omega ?s = 16" and z: "zeta ?s = 16/100"
    by (simp_all add: kick_def bounce0_def UnderDampedScalar_new_def)
  have e0: "osc_energy ?s = 8575"
    by (simp add: kick_def bounce0_def UnderDampedScalar_new_def osc_energy_def)
  from osc_energy_iter [OF o z, of 499] e0
  have e: "osc_energy ?t \<le> (343/375) ^ 499 * 8575" and ot: "omega ?t = 16" and zt: "zeta ?t = 16/100"
    by simp_all
  from e decay_bound have "osc_energy ?t < 183 / 1000000" by simp
  from osc_step_rest [OF ot zt this]
  have "UnderDampedScalar_step (1/60) ?t = ?t\<lparr>osc_x := 0, osc_v := 0\<rparr>" .
  moreover have "(UnderDampedScalar_step (1/60) ^^ 500) ?s = UnderDampedScalar_step (1/60) ?t"
  proof -
    have "(500::nat) = Suc 499" by simp
    then show ?thesis by (simp only: funpow.simps o_apply)
  qed
  ultimately have r: "(UnderDampedScalar_step (1/60) ^^ 500) ?s = ?t\<lparr>osc_x := 0, osc_v := 0\<rparr>" by simp
  have "?t\<lparr>osc_x := 0, osc_v := 0\<rparr> = bounce0"
    using ot zt by (cases ?t) (simp add: bounce0_def UnderDampedScalar_new_def)
  with r show ?thesis by simp
qed

text \<open>
  Claim C9. After every oscillator step, if \<open>|x|\<close> and \<open>|v|\<close> are both under the deadzone
  thresholds then both are exactly zero; and the configured oscillator, kicked once with
  impulse 5 and stepped 500 times at \<open>dt = 1/60\<close>, ends with \<open>x\<close> and \<open>v\<close> exactly zero.
\<close>

theorem UnderDampedScalar_deadzone:
  "(\<bar>osc_x (UnderDampedScalar_step dt s)\<bar> < 1 / 10000 \<and> \<bar>osc_v (UnderDampedScalar_step dt s)\<bar> < 1 / 1000
      \<longrightarrow> osc_x (UnderDampedScalar_step dt s) = 0 \<and> osc_v (UnderDampedScalar_step dt s) = 0)
   \<and> osc_x ((UnderDampedScalar_step (1/60) ^^ 500) (kick 5 bounce0)) = 0
   \<and> osc_v ((UnderDampedScalar_step (1/60) ^^ 500) (kick 5 bounce0)) = 0"
proof -
  have dz: "\<bar>osc_x (UnderDampedScalar_step dt s)\<bar> < 1 / 10000 \<and> \<bar>osc_v (UnderDampedScalar_step dt s)\<bar> < 1 / 1000
      \<longrightarrow> osc_x (UnderDampedScalar_step dt s) = 0 \<and> osc_v (UnderDampedScalar_step dt s) = 0"
    by (auto simp add: UnderDampedScalar_step_def Let_def)
  have "(UnderDampedScalar_step (1/60) ^^ 500) (kick 5 bounce0) = bounce0"
    by (rule osc_scenario)
  then show ?thesis using dz by (simp add: bounce0_def UnderDampedScalar_new_def)
qed

theorem UnderDampedScalar_deadzone_witness:
  "\<bar>osc_x (UnderDampedScalar_step (1/60) (kick (1/100000) bounce0))\<bar> < 1 / 10000
   \<and> \<bar>osc_v (UnderDampedScalar_step (1/60) (kick (1/100000) bounce0))\<bar> < 1 / 1000
   \<and> osc_x (UnderDampedScalar_step (1/60) (kick (1/100000) bounce0)) = 0
   \<and> osc_v (UnderDampedScalar_step (1/60) (kick (1/100000) bounce0)) = 0"
  using UnderDampedScalar_deadzone [of "1/60" "kick (1/100000) bounce0"]
  by (simp add: UnderDampedScalar_step_def kick_def bounce0_def UnderDampedScalar_new_def Let_def)

subsection \<open>Quality controller\<close>

lemma dtSec_bounds: "0 \<le> dtSec_of f s \<and> dtSec_of f s \<le> 5 / 100"
  unfolding dtSec_of_def by (rule clamp_bounds) simp

lemma target_bounds:
  fixes h qm :: real
  assumes "0 \<le> h" "h \<le> 1" "qm \<le> 1"
  shows "qm \<le> 1 - h * (1 - qm) \<and> 1 - h * (1 - qm) \<le> 1"
proof -
  have "h * (1 - qm) \<le> 1 * (1 - qm)" using assms by (intro mult_right_mono) simp_all
  moreover have "0 \<le> h * (1 - qm)" using assms by simp
  ultimately show ?thesis by simp
qed

lemma rafLoop_quality_step:
  fixes f :: frame_input
  assumes qm: "qualityMin cfg \<le> 1" and d: "0 \<le> degradeRatePerSec cfg"
    and r: "0 \<le> recoverRatePerSec cfg"
    and inv: "qualityMin cfg \<le> perfQuality s" "perfQuality s \<le> 1" "\<not> enabled cfg \<longrightarrow> perfQuality s = 1"
  defines "s' \<equiv> rafLoop_quality cfg f s"
  shows "qualityMin cfg \<le> perfQuality s' \<and> perfQuality s' \<le> 1
    \<and> (\<not> enabled cfg \<longrightarrow> perfQuality s' = 1)
    \<and> (perfTargetQuality s' < perfQuality s \<longrightarrow>
          perfTargetQuality s' \<le> perfQuality s' \<and> perfQuality s' \<le> perfQuality s
          \<and> perfQuality s - perfQuality s' \<le> degradeRatePerSec cfg * dtSec_of f s)
    \<and> (perfQuality s \<le> perfTargetQuality s' \<longrightarrow>
          perfQuality s \<le> perfQuality s' \<and> perfQuality s' \<le> perfTargetQuality s'
          \<and> perfQuality s' - perfQuality s \<le> recoverRatePerSec cfg * dtSec_of f s)"
proof -
  define D where "D = degradeRatePerSec cfg * dtSec_of f s"
  define R where "R = recoverRatePerSec cfg * dtSec_of f s"
  have D0: "0 \<le> D" and R0: "0 \<le> R"
    using d r dtSec_bounds [of f s] by (simp_all add: D_def R_def)
  show ?thesis
  proof (cases "cursorVisible f")
    case False
    then have "perfQuality s' = perfQuality s" "perfTargetQuality s' = perfTargetQuality s"
      by (simp_all add: s'_def rafLoop_quality_def Let_def)
    then show ?thesis using inv D0 R0 by (simp add: D_def R_def)
  next
    case vis: True
    show ?thesis
    proof (cases "enabled cfg")
      case False
      then have "perfQuality s' = 1" "perfTargetQuality s' = 1"
        using vis by (simp_all add: s'_def rafLoop_quality_def Let_def)
      then show ?thesis using inv False qm R0 by (simp add: R_def)
    next
      case en: True
      define h where "h = clamp (frameWeight cfg *
          clamp ((lerp (perfFrameEmaMs s) (dtSec_of f s * 1000) (emaAlpha cfg) - targetFrameMs cfg)
                  / max (1 / 10000) (framePressureWindowMs cfg)) 0 1
          + distanceWeight cfg * clamp (motion_dist f / max (1 / 10000) (distanceNormPx cfg)) 0 1) 0 1"
      define tg where "tg = 1 - h * (1 - qualityMin cfg)"
      define q1 where "q1 = (if tg < perfQuality s then max tg (perfQuality s - D) else min tg (perfQuality s + R))"
      have h01: "0 \<le> h \<and> h \<le> 1" unfolding h_def by (rule clamp_bounds) simp
      have tgb: "qualityMin cfg \<le> tg \<and> tg \<le> 1"
        unfolding tg_def using h01 qm by (intro target_bounds) simp_all
      have t': "perfTargetQuality s' = tg"
        using vis en by (simp add: s'_def rafLoop_quality_def Let_def tg_def h_def)
      have q': "perfQuality s' = clamp q1 (qualityMin cfg) 1"
        using vis en by (simp add: s'_def rafLoop_quality_def Let_def tg_def h_def q1_def D_def R_def)
      have q1b: "qualityMin cfg \<le> q1 \<and> q1 \<le> 1"
        using tgb inv D0 R0 by (auto simp: q1_def)
      then have q'': "perfQuality s' = q1" using q' by (simp add: clamp_id)
      show ?thesis
        using tgb inv D0 R0 en unfolding q'' t' by (auto simp: q1_def D_def R_def)
    qed
  qed
qed

lemma quality_run_inv:
  assumes qm: "qualityMin cfg \<le> 1" and d: "0 \<le> degradeRatePerSec cfg"
    and r: "0 \<le> recoverRatePerSec cfg"
  shows "qualityMin cfg \<le> perfQuality (quality_run cfg t0 fs)
     \<and> perfQuality (quality_run cfg t0 fs) \<le> 1
     \<and> (\<not> enabled cfg \<longrightarrow> perfQuality (quality_run cfg t0 fs) = 1)"
proof (induction fs rule: rev_induct)
  case Nil
  then show ?case using qm by (simp add: quality_run_def perf_init_def)
next
  case (snoc f fs)
  have "quality_run cfg t0 (fs @ [f]) = rafLoop_quality cfg f (quality_run cfg t0 fs)"
    by (simp add: quality_run_def)
  with rafLoop_quality_step [OF qm d r, of "quality_run cfg t0 fs" f] snoc
  show ?case by simp
qed

text \<open>
  Claim C3. Along every run of the frame loop (any frame times, visibility flags and
  motion distances) the quality scalar stays within \<open>[qualityMin, 1]\<close> after each tick,
  and each tick moves it toward the tick's target quality without passing it: down by at
  most \<open>degradeRatePerSec * dt\<close> when the target is below, up by at most
  \<open>recoverRatePerSec * dt\<close> otherwise. The configuration is any one with
  \<open>qualityMin \<le> 1\<close> and non-negative rates, as the shipped one is.
\<close>

theorem quality_within_bounds_and_rate_limited:
  assumes qm: "qualityMin cfg \<le> 1" and d: "0 \<le> degradeRatePerSec cfg"
    and r: "0 \<le> recoverRatePerSec cfg"
  shows "qualityMin cfg \<le> perfQuality (quality_run cfg t0 (fs @ [f]))
    \<and> perfQuality (quality_run cfg t0 (fs @ [f])) \<le> 1
    \<and> (perfTargetQuality (quality_run cfg t0 (fs @ [f])) < perfQuality (quality_run cfg t0 fs) \<longrightarrow>
          perfTargetQuality (quality_run cfg t0 (fs @ [f])) \<le> perfQuality (quality_run cfg t0 (fs @ [f]))
          \<and> perfQuality (quality_run cfg t0 (fs @ [f])) \<le> perfQuality (quality_run cfg t0 fs)
          \<and> perfQuality (quality_run cfg t0 fs) - perfQuality (quality_run cfg t0 (fs @ [f]))
              \<le> degradeRatePerSec cfg * dtSec_of f (quality_run cfg t0 fs))
    \<and> (perfQuality (quality_run cfg t0 fs) \<le> perfTargetQuality (quality_run cfg t0 (fs @ [f])) \<longrightarrow>
          perfQuality (quality_run cfg t0 fs) \<le> perfQuality (quality_run cfg t0 (fs @ [f]))
          \<and> perfQuality (quality_run cfg t0 (fs @ [f])) \<le> perfTargetQuality (quality_run cfg t0 (fs @ [f]))
          \<and> perfQuality (quality_run cfg t0 (fs @ [f])) - perfQuality (quality_run cfg t0 fs)
              \<le> recoverRatePerSec cfg * dtSec_of f (quality_run cfg t0 fs))"
proof -
  have e: "quality_run cfg t0 (fs @ [f]) = rafLoop_quality cfg f (quality_run cfg t0 fs)"
    by (simp add: quality_run_def)
  from quality_run_inv [OF qm d r, of t0 fs]
  have i1: "qualityMin cfg \<le> perfQuality (quality_run cfg t0 fs)"
    and i2: "perfQuality (quality_run cfg t0 fs) \<le> 1"
    and i3: "\<not> enabled cfg \<longrightarrow> perfQuality (quality_run cfg t0 fs) = 1" by simp_all
  from rafLoop_quality_step [OF qm d r i1 i2 i3, of f] show ?thesis
    unfolding e by blast
qed

lemma w3_dt:
  "dtSec_of \<lparr>frameNowMs = 40, cursorVisible = True, motion_dist = 200\<rparr> (perf_init CFG_performance 0) = 4 / 100"
  by (simp add: dtSec_of_def clamp_def perf_init_def)

lemma w3_state:
  "rafLoop_quality CFG_performance \<lparr>frameNowMs = 40, cursorVisible = True, motion_dist = 200\<rparr>
     (perf_init CFG_performance 0)
   = \<lparr>last_t = 40, perfFrameEmaMs = 20428 / 1000,
      perfTargetQuality = 1 - (7 / 10 * (3728 / 8000) + 3 / 10) * (62 / 100), perfQuality = 82 / 100\<rparr>"
  unfolding rafLoop_quality_def w3_dt Let_def
  by (simp add: CFG_performance_def perf_init_def lerp_def clamp_def)

theorem quality_within_bounds_and_rate_limited_witness:
  "qualityMin CFG_performance \<le> 1 \<and> 0 \<le> degradeRatePerSec CFG_performance
   \<and> 0 \<le> recoverRatePerSec CFG_performance
   \<and> perfTargetQuality (quality_run CFG_performance 0
         ([] @ [\<lparr>frameNowMs = 40, cursorVisible = True, motion_dist = 200\<rparr>]))
       < perfQuality (quality_run CFG_performance 0 [])
   \<and> perfTargetQuality (quality_run CFG_performance 0
         ([] @ [\<lparr>frameNowMs = 40, cursorVisible = True, motion_dist = 200\<rparr>]))
       \<le> perfQuality (quality_run CFG_performance 0
         ([] @ [\<lparr>frameNowMs = 40, cursorVisible = True, motion_dist = 200\<rparr>]))
   \<and> perfQuality (quality_run CFG_performance 0
         ([] @ [\<lparr>frameNowMs = 40, cursorVisible = True, motion_dist = 200\<rparr>])) = 82 / 100
   \<and> qualityMin CFG_performance \<le> perfQuality (quality_run CFG_performance 0
         ([] @ [\<lparr>frameNowMs = 40, cursorVisible = True, motion_dist = 200\<rparr>]))"
proof -
  have h: "qualityMin CFG_performance \<le> 1" "0 \<le> degradeRatePerSec CFG_performance"
    "0 \<le> recoverRatePerSec CFG_performance"
    by (simp_all add: CFG_performance_def)
  have r0: "perfQuality (quality_run CFG_performance 0 []) = 1"
    by (simp add: quality_run_def perf_init_def)
  have r1: "quality_run CFG_performance 0
      ([] @ [\<lparr>frameNowMs = 40, cursorVisible = True, motion_dist = 200\<rparr>])
    = \<lparr>last_t = 40, perfFrameEmaMs = 20428 / 1000,
      perfTargetQuality = 1 - (7 / 10 * (3728 / 8000) + 3 / 10) * (62 / 100), perfQuality = 82 / 100\<rparr>"
    by (simp add: quality_run_def w3_state)
  from quality_within_bounds_and_rate_limited [OF h, of 0 "[]"
      "\<lparr>frameNowMs = 40, cursorVisible = True, motion_dist = 200\<rparr>"] h
  show ?thesis unfolding r0 r1 by simp
qed

subsection \<open>Canonicalization\<close>

lemma clonePolygon_id: "clonePolygon pts = pts"
  by (induction pts) (simp_all add: clonePolygon_def)

lemma rotatePolygon_rotate: "rotatePolygon xs k = rotate k xs"
  by (rule nth_equalityI) (simp_all add: rotatePolygon_def Let_def nth_rotate add.commute)

lemma mset_rotate_poly: "mset (rotate k xs) = mset xs"
proof (induction k)
  case 0
  then show ?case by simp
next
  case (Suc k)
  have "mset (rotate1 ys) = mset ys" for ys :: "'a list" by (cases ys) simp_all
  with Suc show ?case by simp
qed

lemma polygonCenter_mset:
  assumes "mset xs = mset ys"
  shows "polygonCenter xs = polygonCenter ys"
proof -
  have l: "length xs = length ys" using assms by (rule mset_eq_length)
  have "sum_list (map f xs) = sum_list (map f ys)" for f :: "point \<Rightarrow> real"
  proof -
    have "sum_list (map f xs) = sum_mset (image_mset f (mset xs))"
      by (metis mset_map sum_mset_sum_list)
    also have "\<dots> = sum_mset (image_mset f (mset ys))" using assms by simp
    also have "\<dots> = sum_list (map f ys)"
      by (metis mset_map sum_mset_sum_list)
    finally show ?thesis .
  qed
  then show ?thesis using l by (simp add: polygonCenter_def)
qed

lemma inj_angle_key: "inj_on (angle_key c) A"
  by (rule inj_onI) (simp add: angle_key_def Let_def)

lemma sort_angle_perm:
  assumes "mset xs = mset ys"
  shows "sort_key (angle_key c) xs = sort_key (angle_key c) ys"
  by (rule sort_key_inj_key_eq) (simp_all add: assms inj_angle_key)

lemma sortPolygonByAngle_sort:
  "3 \<le> length xs \<Longrightarrow> sortPolygonByAngle xs = sort_key (angle_key (polygonCenter xs)) xs"
  using clonePolygon_id [of "sort_key (angle_key (polygonCenter xs)) xs"]
  by (simp add: sortPolygonByAngle_def clonePolygon_def)

lemma cyclic_shift_sum:
  fixes G :: "nat \<Rightarrow> real"
  assumes "0 < n"
  shows "(\<Sum>i\<leftarrow>[0..<n]. G ((i + 1) mod n)) = (\<Sum>i\<leftarrow>[0..<n]. G i)"
proof -
  obtain m where n: "n = Suc m" using assms by (cases n) simp_all
  have "(\<Sum>i\<leftarrow>[0..<n]. G ((i + 1) mod n)) = (\<Sum>i = 0..<Suc m. G ((i + 1) mod Suc m))"
    by (simp add: n interv_sum_list_conv_sum_set_nat)
  also have "\<dots> = (\<Sum>i = 0..<m. G ((i + 1) mod Suc m)) + G 0" by simp
  also have "(\<Sum>i = 0..<m. G ((i + 1) mod Suc m)) = (\<Sum>i = 0..<m. G (Suc i))"
    by (rule sum.cong) simp_all
  also have "\<dots> = (\<Sum>i = Suc 0..<Suc m. G i)" by (rule sum.shift_bounds_Suc_ivl [symmetric])
  also have "(\<Sum>i = Suc 0..<Suc m. G i) + G 0 = (\<Sum>i = 0..<Suc m. G i)"
    by (simp add: sum.atLeast_Suc_lessThan)
  also have "\<dots> = (\<Sum>i\<leftarrow>[0..<n]. G i)" by (simp add: n interv_sum_list_conv_sum_set_nat)
  finally show ?thesis .
qed

lemma area_rotate1: "polygonSignedArea (rotate1 xs) = polygonSignedArea xs"
proof (cases "length xs < 3")
  case True
  then show ?thesis by (simp add: polygonSignedArea_def)
next
  case False
  define n where "n = length xs"
  define G where "G j = px (xs ! j) * py (xs ! ((j + 1) mod n)) - px (xs ! ((j + 1) mod n)) * py (xs ! j)" for j
  have n0: "0 < n" using False by (cases xs) (simp_all add: n_def)
  have r: "rotate1 xs ! i = xs ! ((i + 1) mod n)" if "i < n" for i
    using that by (simp add: nth_rotate1 n_def)
  have "(\<Sum>i\<leftarrow>[0..<n]. px (rotate1 xs ! i) * py (rotate1 xs ! ((i + 1) mod n))
          - px (rotate1 xs ! ((i + 1) mod n)) * py (rotate1 xs ! i))
      = (\<Sum>i\<leftarrow>[0..<n]. G ((i + 1) mod n))"
  proof (rule arg_cong [where f = sum_list], rule map_cong [OF refl])
    fix i assume "i \<in> set [0..<n]"
    then have i: "i < n" by simp
    have i1: "(i + 1) mod n < n" using n0 by simp
    show "px (rotate1 xs ! i) * py (rotate1 xs ! ((i + 1) mod n))
          - px (rotate1 xs ! ((i + 1) mod n)) * py (rotate1 xs ! i) = G ((i + 1) mod n)"
      by (simp only: r [OF i] r [OF i1] G_def)
  qed
  also have "\<dots> = (\<Sum>i\<leftarrow>[0..<n]. G i)" by (rule cyclic_shift_sum [OF n0])
  finally show ?thesis using False
    by (simp add: polygonSignedArea_def Let_def n_def [symmetric] G_def)
qed

lemma area_rotate: "polygonSignedArea (rotate k xs) = polygonSignedArea xs"
  by (induction k) (simp_all add: area_rotate1)

lemma pointDist_nonneg: "0 \<le> pointDist a b"
  by (simp add: pointDist_def hypot_def)

lemma pointDist_zero: "pointDist a b = 0 \<longleftrightarrow> a = b"
proof
  assume "pointDist a b = 0"
  then have "(px a - px b) * (px a - px b) + (py a - py b) * (py a - py b) = 0"
    by (simp add: pointDist_def hypot_def)
  then have "px a - px b = 0 \<and> py a - py b = 0"
    by (simp add: sum_squares_eq_zero_iff)
  then show "a = b" by simp
next
  assume "a = b"
  then show "pointDist a b = 0" by (simp add: pointDist_def hypot_def)
qed

lemma match_score_nonneg: "0 \<le> match_score cand ref"
  unfolding match_score_def by (rule sum_list_nonneg) (auto simp: pointDist_nonneg)

lemma pointDist_self: "pointDist a a = 0"
  by (simp add: pointDist_def hypot_def)

lemma match_score_self: "match_score xs xs = 0"
  by (simp add: match_score_def pointDist_self)

lemma match_score_zero:
  assumes "match_score cand ref = 0" and "length cand = length ref"
  shows "cand = ref"
proof (rule nth_equalityI)
  show "length cand = length ref" by fact
next
  fix i assume "i < length cand"
  then have i: "i < length ref" using assms by simp
  have "\<forall>v\<in>set (map (\<lambda>i. pointDist (cand ! i) (ref ! i)) [0..<length ref]). v = 0"
    using assms(1) unfolding match_score_def
    by (subst (asm) sum_list_nonneg_eq_0_iff) (auto simp: pointDist_nonneg)
  then have "pointDist (cand ! i) (ref ! i) = 0" using i by auto
  then show "cand ! i = ref ! i" by (simp add: pointDist_zero)
qed

lemma match_fold_inv:
  "\<exists>b'. foldl (match_better ref) (Some b, Some (match_score b ref)) cands
          = (Some b', Some (match_score b' ref))
       \<and> (b' = b \<or> b' \<in> set cands)
       \<and> match_score b' ref \<le> match_score b ref
       \<and> (\<forall>c\<in>set cands. match_score b' ref \<le> match_score c ref)"
proof (induction cands arbitrary: b)
  case Nil
  then show ?case by simp
next
  case (Cons c cs)
  show ?case
  proof (cases "match_score c ref < match_score b ref")
    case True
    then have st: "match_better ref (Some b, Some (match_score b ref)) c = (Some c, Some (match_score c ref))"
      by (simp add: match_better_def)
    from Cons [of c] obtain b' where
      "foldl (match_better ref) (Some c, Some (match_score c ref)) cs = (Some b', Some (match_score b' ref))"
      "b' = c \<or> b' \<in> set cs" "match_score b' ref \<le> match_score c ref"
      "\<forall>d\<in>set cs. match_score b' ref \<le> match_score d ref" by blast
    with True st show ?thesis by (intro exI [of _ b']) auto
  next
    case False
    then have st: "match_better ref (Some b, Some (match_score b ref)) c = (Some b, Some (match_score b ref))"
      by (simp add: match_better_def)
    from Cons [of b] obtain b' where
      "foldl (match_better ref) (Some b, Some (match_score b ref)) cs = (Some b', Some (match_score b' ref))"
      "b' = b \<or> b' \<in> set cs" "match_score b' ref \<le> match_score b ref"
      "\<forall>d\<in>set cs. match_score b' ref \<le> match_score d ref" by blast
    with False st show ?thesis by (intro exI [of _ b']) auto
  qed
qed

lemma match_fold_min:
  assumes "cands \<noteq> []"
  shows "\<exists>b. fst (foldl (match_better ref) (None, None) cands) = Some b
       \<and> b \<in> set cands \<and> (\<forall>c\<in>set cands. match_score b ref \<le> match_score c ref)"
proof -
  obtain c cs where cc: "cands = c # cs" using assms by (cases cands) simp_all
  have st: "match_better ref (None, None) c = (Some c, Some (match_score c ref))"
    by (simp add: match_better_def)
  from match_fold_inv [of ref c cs] obtain b' where
    "foldl (match_better ref) (Some c, Some (match_score c ref)) cs = (Some b', Some (match_score b' ref))"
    "b' = c \<or> b' \<in> set cs" "match_score b' ref \<le> match_score c ref"
    "\<forall>d\<in>set cs. match_score b' ref \<le> match_score d ref" by blast
  then show ?thesis unfolding cc using st by (intro exI [of _ b']) auto
qed

lemma sorted_sortPolygonByAngle:
  assumes "3 \<le> length Q" and "mset S = mset Q"
    and "sorted (map (angle_key (polygonCenter Q)) S)"
  shows "sortPolygonByAngle S = S"
proof -
  have l: "3 \<le> length S" using assms(1,2) by (metis mset_eq_length)
  have c: "polygonCenter S = polygonCenter Q" using assms(2) by (rule polygonCenter_mset)
  show ?thesis using assms(3) by (simp add: sortPolygonByAngle_sort [OF l] c sort_key_id_if_sorted)
qed

lemma match_unfold:
  assumes n: "3 \<le> length S" and lr: "length r = length S" and so: "sortPolygonByAngle S = S"
  shows "matchPolygonToReference S r =
          (case fst (foldl (match_better r) (None, None)
                  (concat (map (\<lambda>base. map (\<lambda>off. rotatePolygon base off) [0..<length S])
                     (match_bases S r)))) of
             Some best \<Rightarrow> best | None \<Rightarrow> S)"
proof -
  have a: "min (length S) (length r) = length S" using lr by simp
  have b: "take (length S) r = r" "take (length S) S = S" using lr by simp_all
  have c: "(length S < 3) = False" using n by simp
  show ?thesis
    unfolding matchPolygonToReference_def clonePolygon_id Let_def a b c so match_bases_def if_False
    by (rule refl)
qed

lemma match_bases_props:
  "match_bases S r \<noteq> [] \<and> set (match_bases S r) \<subseteq> {S, rev S}"
  by (auto simp: match_bases_def)

lemma match_result_rotation:
  assumes n: "3 \<le> length S" and lr: "length r = length S" and so: "sortPolygonByAngle S = S"
  shows "\<exists>B k. (B = S \<or> B = rev S) \<and> B \<in> set (match_bases S r)
     \<and> matchPolygonToReference S r = rotate k B"
proof -
  let ?cands = "concat (map (\<lambda>base. map (\<lambda>off. rotatePolygon base off) [0..<length S]) (match_bases S r))"
  obtain B0 where B0: "B0 \<in> set (match_bases S r)"
    using match_bases_props [of S r] by (cases "match_bases S r") auto
  have n0: "0 < length S" using n by (cases S) simp_all
  then have "(0::nat) \<in> set [0..<length S]" by simp
  then have "rotatePolygon B0 0 \<in> set ?cands" using B0 by (auto intro!: bexI [of _ B0])
  then have ne: "?cands \<noteq> []" by auto
  from match_fold_min [OF ne, of r] obtain b where
    b: "fst (foldl (match_better r) (None, None) ?cands) = Some b" "b \<in> set ?cands" by blast
  from b(2) obtain B k where Bk: "B \<in> set (match_bases S r)" "b = rotatePolygon B k" by auto
  have "B = S \<or> B = rev S" using Bk(1) match_bases_props [of S r] by auto
  moreover have "matchPolygonToReference S r = rotate k B"
    unfolding match_unfold [OF n lr so] b(1) using Bk(2) by (simp add: rotatePolygon_rotate)
  ultimately show ?thesis using Bk(1) by blast
qed

lemma match_self:
  assumes n: "3 \<le> length S" and so: "sortPolygonByAngle S = S"
    and B: "B = S \<or> B = rev S"
  shows "matchPolygonToReference S (rotate k B) = rotate k B"
proof -
  let ?P = "rotate k B"
  have lB: "length B = length S" using B by auto
  have lP: "length ?P = length S" using lB by simp
  let ?cands = "concat (map (\<lambda>base. map (\<lambda>off. rotatePolygon base off) [0..<length S]) (match_bases S ?P))"
  have aP: "polygonSignedArea ?P = polygonSignedArea B" by (rule area_rotate)
  have Bin: "B \<in> set (match_bases S ?P)"
    using B unfolding match_bases_def aP by auto
  have n0: "0 < length S" using n by (cases S) simp_all
  have rp: "rotatePolygon B (k mod length S) = ?P"
    unfolding rotatePolygon_rotate using rotate_conv_mod [of k B] lB by simp
  have "k mod length S \<in> {0..<length S}" using n0 by simp
  then have "?P \<in> rotatePolygon B ` {0..<length S}" using rp by (metis imageI)
  then have Pin: "?P \<in> set ?cands" using Bin by (auto intro!: bexI [of _ B])
  then have ne: "?cands \<noteq> []" by auto
  from match_fold_min [OF ne, of ?P] obtain b where
    b: "fst (foldl (match_better ?P) (None, None) ?cands) = Some b" "b \<in> set ?cands"
      "\<forall>c\<in>set ?cands. match_score b ?P \<le> match_score c ?P" by blast
  from b(3) Pin have "match_score b ?P \<le> match_score ?P ?P" by blast
  then have z: "match_score b ?P = 0"
    using match_score_nonneg [of b ?P] by (simp add: match_score_self)
  from b(2) obtain B' k' where "B' \<in> set (match_bases S ?P)" "b = rotatePolygon B' k'" by auto
  then have "length b = length S"
    using match_bases_props [of S ?P] by (auto simp: rotatePolygon_rotate)
  then have "b = ?P" using z lP by (intro match_score_zero) simp_all
  then show ?thesis unfolding match_unfold [OF n lP so] b(1) by simp
qed

lemma topLeft_index:
  "foldl (\<lambda>best i. if P i best then i else best) b idxs \<in> insert b (set idxs)"
  by (induction idxs arbitrary: b) auto

lemma rotateToTopLeftStart_rotation:
  "\<exists>k. rotateToTopLeftStart S = rotate k S"
  by (cases "S = []") (auto simp: rotateToTopLeftStart_def Let_def clonePolygon_id rotatePolygon_rotate)

lemma canonical_rotation:
  assumes n: "3 \<le> length Q"
  defines "S \<equiv> sort_key (angle_key (polygonCenter Q)) Q"
  shows "\<exists>B k. (B = S \<or> B = rev S) \<and> canonicalizePolygon Q R = rotate k B"
proof -
  have mS: "mset S = mset Q" by (simp add: S_def)
  have lS: "length S = length Q" by (simp add: S_def)
  have so: "sortPolygonByAngle S = S"
    by (rule sorted_sortPolygonByAngle [OF n mS]) (simp add: S_def)
  have oq: "sortPolygonByAngle Q = S"
    using n by (simp add: sortPolygonByAngle_sort S_def)
  have c: "(length Q < 3) = False" using n by simp
  have tl: "\<exists>B k. (B = S \<or> B = rev S) \<and> rotateToTopLeftStart S = rotate k B"
    using rotateToTopLeftStart_rotation [of S] by blast
  show ?thesis
  proof (cases R)
    case None
    then show ?thesis using tl by (simp add: canonicalizePolygon_def Let_def c oq)
  next
    case (Some r)
    show ?thesis
    proof (cases "length r = length Q")
      case True
      from match_result_rotation [OF _ _ so, of r] n True lS
      have "\<exists>B k. (B = S \<or> B = rev S) \<and> matchPolygonToReference S r = rotate k B" by auto
      then show ?thesis using Some True by (simp add: canonicalizePolygon_def Let_def c oq)
    next
      case False
      then show ?thesis using Some tl by (simp add: canonicalizePolygon_def Let_def c oq)
    qed
  qed
qed

text \<open>
  In exact arithmetic canonicalization is idempotent: the result \<open>P\<close> of canonicalizing
  any polygon against any reference or none is returned unchanged when canonicalized
  against itself. The proof rests on the centroid being the same for every order of the
  vertices (\<open>polygonCenter_mset\<close>), which holds for the exact sums of this model and not
  for the rounded sums of the program, where the centroid, and with it the angle ties,
  depend on the order in which the coordinates are added. This is a fact about the model
  over the reals only.
\<close>

lemma canonicalizePolygon_exact_idempotent:
  "canonicalizePolygon (canonicalizePolygon Q R) (Some (canonicalizePolygon Q R))
     = canonicalizePolygon Q R"
proof (cases "length Q < 3")
  case True
  then show ?thesis by (simp add: canonicalizePolygon_def Let_def clonePolygon_id)
next
  case False
  then have n: "3 \<le> length Q" by simp
  define S where "S = sort_key (angle_key (polygonCenter Q)) Q"
  define P where "P = canonicalizePolygon Q R"
  from canonical_rotation [OF n, of R] obtain B k where
    B: "B = S \<or> B = rev S" and P: "P = rotate k B" by (auto simp: S_def P_def)
  have mS: "mset S = mset Q" by (simp add: S_def)
  have lS: "3 \<le> length S" using n by (simp add: S_def)
  have so: "sortPolygonByAngle S = S"
    by (rule sorted_sortPolygonByAngle [OF n mS]) (simp add: S_def)
  have mB: "mset B = mset Q" using B mS by auto
  have mP: "mset P = mset Q" unfolding P using mB by (simp add: mset_rotate_poly)
  have lP: "length P = length S" using B by (auto simp: P)
  have cP: "polygonCenter P = polygonCenter Q" using mP by (rule polygonCenter_mset)
  have "sortPolygonByAngle P = sort_key (angle_key (polygonCenter Q)) P"
    using lP lS by (simp add: sortPolygonByAngle_sort cP)
  also have "\<dots> = S" unfolding S_def using mP by (rule sort_angle_perm)
  finally have oP: "sortPolygonByAngle P = S" by simp
  have c: "(length P < 3) = False" using lP lS by simp
  have "canonicalizePolygon P (Some P) = matchPolygonToReference S P"
    by (simp add: canonicalizePolygon_def Let_def c oP)
  also have "\<dots> = P" unfolding P by (rule match_self [OF lS so B])
  finally show ?thesis by (simp add: P_def)
qed

subsection \<open>Trail store\<close>

lemma capTrail_drop: "capTrail cfg tr = drop (length tr - maxRects cfg) tr"
  by (simp add: capTrail_def)

lemma capTrail_length: "length (capTrail cfg tr) \<le> max (maxRects cfg) 0 \<and> length (capTrail cfg tr) \<le> length tr"
  by (simp add: capTrail_def)

lemma capTrail_set: "set (capTrail cfg tr) \<subseteq> set tr"
  by (simp add: capTrail_def set_drop_subset)

lemma capTrail_id: "length tr \<le> maxRects cfg \<Longrightarrow> capTrail cfg tr = tr"
  by (simp add: capTrail_def)

lemma interp_loop_appends:
  "\<exists>new. fst (interp_loop cfg lp pts tp stampMs seg idxs (tr, prev, pa)) = tr @ new
     \<and> length new \<le> length idxs
     \<and> (\<forall>e\<in>set new. s_t e = stampMs \<and> isValidTrailPolygon (s_pts e))
     \<and> snd (snd (interp_loop cfg lp pts tp stampMs seg idxs (tr, prev, pa))) = (pa \<or> new \<noteq> [])"
proof (induction idxs arbitrary: tr prev pa)
  case Nil
  then show ?case by simp
next
  case (Cons i rest)
  let ?e = "interp_entry cfg lp pts tp seg prev i"
  show ?case
  proof (cases "isValidTrailPolygon ?e")
    case False
    from Cons [of tr prev pa] obtain new where
      n: "fst (interp_loop cfg lp pts tp stampMs seg rest (tr, prev, pa)) = tr @ new"
        "length new \<le> length rest"
        "\<forall>e\<in>set new. s_t e = stampMs \<and> isValidTrailPolygon (s_pts e)"
        "snd (snd (interp_loop cfg lp pts tp stampMs seg rest (tr, prev, pa))) = (pa \<or> new \<noteq> [])"
      by blast
    with False show ?thesis by (intro exI [of _ new]) (simp add: Let_def)
  next
    case True
    define entry where "entry = \<lparr>s_t = stampMs, s_cx = px (polygonCenter ?e), s_cy = py (polygonCenter ?e), s_pts = ?e\<rparr>"
    from Cons [of "tr @ [entry]" ?e True] obtain new where
      n: "fst (interp_loop cfg lp pts tp stampMs seg rest (tr @ [entry], ?e, True)) = (tr @ [entry]) @ new"
        "length new \<le> length rest"
        "\<forall>e\<in>set new. s_t e = stampMs \<and> isValidTrailPolygon (s_pts e)"
        "snd (snd (interp_loop cfg lp pts tp stampMs seg rest (tr @ [entry], ?e, True))) = (True \<or> new \<noteq> [])"
      by blast
    with True show ?thesis
      by (intro exI [of _ "entry # new"]) (simp add: Let_def entry_def)
  qed
qed

lemma push_shape:
  "pushTrailPolygon cfg poly tp stampMs q st = st
   \<or> (\<exists>new. trail (pushTrailPolygon cfg poly tp stampMs q st) = capTrail cfg (trail st @ new)
         \<and> length new \<le> (if lastPushed st = None then 1
               else nat (segments_of cfg q (interpMetric (the (lastPushed st))
                      (push_process cfg (the (lastPushed st)) (push_prepare cfg st poly tp) tp))))
         \<and> (\<forall>e\<in>set new. s_t e = stampMs \<and> isValidTrailPolygon (s_pts e))
         \<and> lastPushed (pushTrailPolygon cfg poly tp stampMs q st)
             = (if new = [] then lastPushed st else Some (last new)))"
proof (cases "length poly < 3 \<or> \<not> isValidTrailPolygon (push_prepare cfg st poly tp)")
  case True
  then show ?thesis by (auto simp: pushTrailPolygon_def Let_def)
next
  case ok: False
  show ?thesis
  proof (cases "lastPushed st")
    case None
    define c where "c = polygonCenter (push_prepare cfg st poly tp)"
    define first where "first = \<lparr>s_t = stampMs, s_cx = px c, s_cy = py c, s_pts = push_prepare cfg st poly tp\<rparr>"
    have "pushTrailPolygon cfg poly tp stampMs q st
        = \<lparr>trail = capTrail cfg (trail st @ [first]), lastPushed = Some first\<rparr>"
      using ok None by (simp add: pushTrailPolygon_def Let_def first_def c_def)
    then show ?thesis using ok None
      by (intro disjI2 exI [of _ "[first]"]) (simp add: first_def)
  next
    case (Some lp)
    define pts where "pts = push_process cfg lp (push_prepare cfg st poly tp) tp"
    show ?thesis
    proof (cases "\<not> isValidTrailPolygon pts \<or> interpMetric lp pts < moveThreshold cfg")
      case True
      then show ?thesis using ok Some by (auto simp: pushTrailPolygon_def Let_def pts_def)
    next
      case False
      define seg where "seg = segments_of cfg q (interpMetric lp pts)"
      define r where "r = interp_loop cfg lp pts tp stampMs seg [1..<nat seg + 1] (trail st, s_pts lp, False)"
      from interp_loop_appends [of cfg lp pts tp stampMs seg "[1..<nat seg + 1]" "trail st" "s_pts lp" False]
      obtain new where n0: "fst r = trail st @ new" "length new \<le> length [1..<nat seg + 1]"
        "\<forall>e\<in>set new. s_t e = stampMs \<and> isValidTrailPolygon (s_pts e)"
        "snd (snd r) = (False \<or> new \<noteq> [])"
        unfolding r_def by blast
      have ll: "length [1..<nat seg + 1] = nat seg" by simp
      from n0 have n: "fst r = trail st @ new" "length new \<le> nat seg"
        "\<forall>e\<in>set new. s_t e = stampMs \<and> isValidTrailPolygon (s_pts e)"
        "snd (snd r) = (new \<noteq> [])"
        unfolding ll by simp_all
      have p: "pushTrailPolygon cfg poly tp stampMs q st
          = \<lparr>trail = capTrail cfg (fst r),
             lastPushed = (if snd (snd r) then Some (last (fst r)) else Some lp)\<rparr>"
        using ok Some False
        by (simp add: pushTrailPolygon_def Let_def pts_def seg_def r_def split_beta)
      show ?thesis
        using n Some unfolding p
        by (intro disjI2 exI [of _ new]) (simp add: seg_def pts_def)
    qed
  qed
qed

lemma pushed_simps:
  "pushed [] = []"
  "pushed (None # steps) = pushed steps"
  "pushed (Some s # steps) = s # pushed steps"
  by (simp_all add: pushed_def)

lemma pushed_length: "length (pushed steps) \<le> length steps"
  by (simp add: pushed_def)

lemma pushed_all:
  assumes "\<forall>k<length steps. steps ! k \<noteq> None"
  shows "length (pushed steps) = length steps"
proof -
  have "filter (\<lambda>e. e \<noteq> None) steps = steps"
    using assms by (auto simp add: filter_id_conv in_set_conv_nth)
  then show ?thesis by (simp add: pushed_def)
qed

lemma interp_steps_length:
  "length (interp_steps cfg lp pts tp stampMs seg idxs prev) = length idxs"
  by (induction idxs arbitrary: prev) (simp_all add: Let_def)

lemma interp_loop_steps:
  "interp_loop cfg lp pts tp stampMs seg idxs (tr, prev, pa)
     = (tr @ pushed (interp_steps cfg lp pts tp stampMs seg idxs prev),
        last (prev # map s_pts (pushed (interp_steps cfg lp pts tp stampMs seg idxs prev))),
        pa \<or> pushed (interp_steps cfg lp pts tp stampMs seg idxs prev) \<noteq> [])"
proof (induction idxs arbitrary: tr prev pa)
  case Nil
  then show ?case by (simp add: pushed_simps)
next
  case (Cons i rest)
  show ?case
  proof (cases "isValidTrailPolygon (interp_entry cfg lp pts tp seg prev i)")
    case False
    then show ?thesis by (simp add: Let_def Cons pushed_simps)
  next
    case True
    then show ?thesis by (simp add: Let_def Cons pushed_simps)
  qed
qed

text \<open>Each iteration, from the samples pushed before it.\<close>

lemma interp_steps_nth:
  assumes "k < length idxs"
  shows "interp_steps cfg lp pts tp stampMs seg idxs prev ! k
     = (let entryPts = interp_entry cfg lp pts tp seg
              (last (prev # map s_pts (pushed (take k (interp_steps cfg lp pts tp stampMs seg idxs prev)))))
              (idxs ! k)
        in if isValidTrailPolygon entryPts
           then Some \<lparr>s_t = stampMs, s_cx = px (polygonCenter entryPts),
                      s_cy = py (polygonCenter entryPts), s_pts = entryPts\<rparr>
           else None)"
  using assms
proof (induction idxs arbitrary: prev k)
  case Nil
  then show ?case by simp
next
  case (Cons i rest)
  show ?case
  proof (cases k)
    case 0
    then show ?thesis by (simp add: Let_def pushed_simps)
  next
    case (Suc j)
    with Cons.prems have j: "j < length rest" by simp
    show ?thesis
    proof (cases "isValidTrailPolygon (interp_entry cfg lp pts tp seg prev i)")
      case False
      then show ?thesis
        using Cons.IH [OF j, of prev] by (simp add: Suc Let_def pushed_simps)
    next
      case True
      then show ?thesis
        using Cons.IH [OF j, of "interp_entry cfg lp pts tp seg prev i"]
        by (simp add: Suc Let_def pushed_simps)
    qed
  qed
qed

lemma interp_steps_stamped:
  "\<forall>s\<in>set (pushed (interp_steps cfg lp pts tp stampMs seg idxs prev)).
      s_t s = stampMs \<and> isValidTrailPolygon (s_pts s)"
  by (induction idxs arbitrary: prev) (simp_all add: Let_def pushed_simps)

lemma push_trail_appended:
  "trail (pushTrailPolygon cfg poly tp stampMs q st)
     = capTrail cfg (trail st @ appended_samples cfg poly tp stampMs q st)
   \<or> (pushTrailPolygon cfg poly tp stampMs q st = st \<and> appended_samples cfg poly tp stampMs q st = [])"
  by (simp add: pushTrailPolygon_def appended_samples_def Let_def interp_loop_steps
      split: option.split del: upt_Suc)

lemma push_passed:
  assumes "lastPushed st = Some lp" and "3 \<le> length poly"
    and "isValidTrailPolygon (push_prepare cfg st poly tp)"
    and "pts = push_process cfg lp (push_prepare cfg st poly tp) tp"
    and "isValidTrailPolygon pts"
    and "\<not> interpMetric lp pts < moveThreshold cfg"
    and "seg = segments_of cfg q (interpMetric lp pts)"
    and "steps = interp_steps cfg lp pts tp stampMs seg [1..<nat seg + 1] (s_pts lp)"
  shows "pushTrailPolygon cfg poly tp stampMs q st
     = \<lparr>trail = capTrail cfg (trail st @ pushed steps),
        lastPushed = (if pushed steps = [] then Some lp else Some (last (pushed steps)))\<rparr>"
  using assms
  by (simp add: pushTrailPolygon_def Let_def interp_loop_steps del: upt_Suc)

lemma prune_loop_filter:
  "i \<le> length tr \<Longrightarrow>
   prune_loop now ttl i tr = filter (\<lambda>e. \<not> now - s_t e > ttl) (take i tr) @ drop i tr"
proof (induction i arbitrary: tr)
  case 0
  then show ?case by simp
next
  case (Suc i)
  then have il: "i < length tr" by simp
  have tk: "take (Suc i) tr = take i tr @ [tr ! i]" using il by (simp add: take_Suc_conv_app_nth)
  have dr: "drop i tr = tr ! i # drop (Suc i) tr" using il by (simp add: Cons_nth_drop_Suc)
  show ?case
  proof (cases "now - s_t (tr ! i) > ttl")
    case True
    have "prune_loop now ttl (Suc i) tr = prune_loop now ttl i (take i tr @ drop (Suc i) tr)"
      using True by simp
    also have "\<dots> = filter (\<lambda>e. \<not> now - s_t e > ttl) (take i (take i tr @ drop (Suc i) tr))
                      @ drop i (take i tr @ drop (Suc i) tr)"
      using il by (intro Suc.IH) simp
    also have "\<dots> = filter (\<lambda>e. \<not> now - s_t e > ttl) (take i tr) @ drop (Suc i) tr"
      using il by simp
    finally show ?thesis using True tk by simp
  next
    case False
    have "prune_loop now ttl (Suc i) tr = prune_loop now ttl i tr" using False by simp
    also have "\<dots> = filter (\<lambda>e. \<not> now - s_t e > ttl) (take i tr) @ drop i tr"
      using il by (intro Suc.IH) simp
    finally show ?thesis using False tk dr by simp
  qed
qed

lemma pruneTrail_filter:
  "trail (pruneTrail cfg now st) = filter (\<lambda>e. \<not> now - s_t e > ttlMs cfg) (trail st)"
  by (simp add: pruneTrail_def prune_loop_filter)

lemma trail_apply_length:
  "length (trail st) \<le> maxRects cfg \<Longrightarrow> length (trail (trail_apply cfg st c)) \<le> maxRects cfg"
proof (cases c)
  case (Push poly tp stampMs q)
  assume l: "length (trail st) \<le> maxRects cfg"
  from push_shape [of cfg poly tp stampMs q st] l show ?thesis
    unfolding Push by (auto simp: capTrail_def)
next
  case (Prune now)
  assume l: "length (trail st) \<le> maxRects cfg"
  have "length (filter (\<lambda>e. \<not> now - s_t e > ttlMs cfg) (trail st)) \<le> length (trail st)"
    by (rule length_filter_le)
  with l have "length (filter (\<lambda>e. \<not> now - s_t e > ttlMs cfg) (trail st)) \<le> maxRects cfg"
    by (rule le_trans [rotated])
  then show ?thesis unfolding Prune trail_apply.simps pruneTrail_filter .
qed

lemma trail_run_length: "length (trail (trail_run cfg calls)) \<le> maxRects cfg"
proof (induction calls rule: rev_induct)
  case Nil
  then show ?case by (simp add: trail_run_def trail_empty_def)
next
  case (snoc c calls)
  have "trail_run cfg (calls @ [c]) = trail_apply cfg (trail_run cfg calls) c"
    by (simp add: trail_run_def)
  with trail_apply_length [OF snoc] show ?case by simp
qed

lemma trail_apply_valid:
  assumes "\<forall>e\<in>set (trail st). isValidTrailPolygon (s_pts e)"
  shows "\<forall>e\<in>set (trail (trail_apply cfg st c)). isValidTrailPolygon (s_pts e)"
proof (cases c)
  case (Push poly tp stampMs q)
  from push_shape [of cfg poly tp stampMs q st] show ?thesis
  proof
    assume "pushTrailPolygon cfg poly tp stampMs q st = st"
    then show ?thesis using assms Push by simp
  next
    assume "\<exists>new. trail (pushTrailPolygon cfg poly tp stampMs q st) = capTrail cfg (trail st @ new)
         \<and> length new \<le> (if lastPushed st = None then 1
               else nat (segments_of cfg q (interpMetric (the (lastPushed st))
                      (push_process cfg (the (lastPushed st)) (push_prepare cfg st poly tp) tp))))
         \<and> (\<forall>e\<in>set new. s_t e = stampMs \<and> isValidTrailPolygon (s_pts e))
         \<and> lastPushed (pushTrailPolygon cfg poly tp stampMs q st)
             = (if new = [] then lastPushed st else Some (last new))"
    then obtain new where n: "trail (pushTrailPolygon cfg poly tp stampMs q st) = capTrail cfg (trail st @ new)"
      "\<forall>e\<in>set new. s_t e = stampMs \<and> isValidTrailPolygon (s_pts e)" by blast
    have "set (capTrail cfg (trail st @ new)) \<subseteq> set (trail st) \<union> set new"
      using capTrail_set [of cfg "trail st @ new"] by simp
    with n assms show ?thesis unfolding Push by auto
  qed
next
  case (Prune now)
  then show ?thesis using assms by (simp add: pruneTrail_filter)
qed

lemma trail_run_valid: "\<forall>e\<in>set (trail (trail_run cfg calls)). isValidTrailPolygon (s_pts e)"
proof (induction calls rule: rev_induct)
  case Nil
  then show ?case by (simp add: trail_run_def trail_empty_def)
next
  case (snoc c calls)
  have "trail_run cfg (calls @ [c]) = trail_apply cfg (trail_run cfg calls) c"
    by (simp add: trail_run_def)
  with trail_apply_valid [OF snoc] show ?case by simp
qed

subsection \<open>The scenario squares\<close>

lemma atan2_corners:
  "atan2 (- 1) (- 1) = pi / 4 - pi" "atan2 (- 1) 1 = - (pi / 4)"
  "atan2 1 1 = pi / 4" "atan2 1 (- 1) = pi - pi / 4"
  by (simp_all add: atan2_def arctan_minus arctan_one)

lemma square_center: "polygonCenter (square_at c) = \<lparr>px = c, py = 0\<rparr>"
  by (simp add: polygonCenter_def square_at_def)

lemma square_sorted: "sorted (map (angle_key \<lparr>px = c, py = 0\<rparr>) (square_at c))"
proof -
  have p: "0 < pi" by simp
  have k: "map (angle_key \<lparr>px = c, py = 0\<rparr>) (square_at c)
     = [(pi / 4 - pi, 2, - 1, c - 1), (- (pi / 4), 2, - 1, c + 1), (pi / 4, 2, 1, c + 1), (pi - pi / 4, 2, 1, c - 1)]"
    by (simp add: square_at_def angle_key_def Let_def atan2_corners)
  have o: "pi / 4 - pi < - (pi / 4)" "- (pi / 4) < pi / 4" "pi / 4 < pi - pi / 4"
    using p by simp_all
  show ?thesis unfolding k using o by (simp add: less_imp_le)
qed

lemma square_sort: "sortPolygonByAngle (square_at c) = square_at c"
proof -
  have l: "3 \<le> length (square_at c)" by (simp add: square_at_def)
  show ?thesis
    unfolding sortPolygonByAngle_sort [OF l] square_center
    by (rule sort_key_id_if_sorted) (rule square_sorted)
qed

lemma square_topLeft: "rotateToTopLeftStart (square_at c) = square_at c"
  by (simp add: rotateToTopLeftStart_def square_at_def Let_def clonePolygon_id rotatePolygon_def upt_rec)

lemma hypot_zero_right: "hypot u 0 = \<bar>u\<bar>"
  by (simp add: hypot_def)

lemma hypot_ge_abs: "\<bar>u\<bar> \<le> hypot u v"
proof -
  have "sqrt (u * u) \<le> sqrt (u * u + v * v)" by (rule real_sqrt_le_mono) simp
  then show ?thesis by (simp add: hypot_def)
qed

lemma square_area: "polygonSignedArea (square_at d) = 4" "polygonSignedArea (rev (square_at d)) = - 4"
  by (simp_all add: polygonSignedArea_def square_at_def upt_rec algebra_simps)

lemma square_bases: "match_bases (square_at c) (square_at d) = [square_at c]"
  by (simp add: match_bases_def square_area)

lemma square_rotations:
  "map (\<lambda>off. rotatePolygon (square_at c) off) [0..<length (square_at c)]
   = [square_at c,
      [\<lparr>px = c + 1, py = - 1\<rparr>, \<lparr>px = c + 1, py = 1\<rparr>, \<lparr>px = c - 1, py = 1\<rparr>, \<lparr>px = c - 1, py = - 1\<rparr>],
      [\<lparr>px = c + 1, py = 1\<rparr>, \<lparr>px = c - 1, py = 1\<rparr>, \<lparr>px = c - 1, py = - 1\<rparr>, \<lparr>px = c + 1, py = - 1\<rparr>],
      [\<lparr>px = c - 1, py = 1\<rparr>, \<lparr>px = c - 1, py = - 1\<rparr>, \<lparr>px = c + 1, py = - 1\<rparr>, \<lparr>px = c + 1, py = 1\<rparr>]]"
  by (simp add: rotatePolygon_def square_at_def upt_rec)

lemma square_score0: "match_score (square_at c) (square_at d) = 4 * \<bar>c - d\<bar>"
  by (simp add: match_score_def square_at_def upt_rec pointDist_def hypot_zero_right)

lemma four_bound:
  fixes h1 h2 h3 h4 a1 a2 a3 a4 u :: real
  assumes "\<bar>a1\<bar> \<le> h1" "\<bar>a2\<bar> \<le> h2" "\<bar>a3\<bar> \<le> h3" "\<bar>a4\<bar> \<le> h4"
    and "4 * \<bar>u\<bar> \<le> \<bar>a1\<bar> + \<bar>a2\<bar> + \<bar>a3\<bar> + \<bar>a4\<bar>"
  shows "4 * \<bar>u\<bar> \<le> h1 + (h2 + (h3 + h4))"
  using assms by linarith

lemma square_score1:
  "4 * \<bar>c - d\<bar> \<le> match_score
     [\<lparr>px = c + 1, py = - 1\<rparr>, \<lparr>px = c + 1, py = 1\<rparr>, \<lparr>px = c - 1, py = 1\<rparr>, \<lparr>px = c - 1, py = - 1\<rparr>]
     (square_at d)"
proof -
  have e: "match_score
     [\<lparr>px = c + 1, py = - 1\<rparr>, \<lparr>px = c + 1, py = 1\<rparr>, \<lparr>px = c - 1, py = 1\<rparr>, \<lparr>px = c - 1, py = - 1\<rparr>]
     (square_at d)
    = hypot (c + 1 - (d - 1)) 0 + (hypot (c + 1 - (d + 1)) 2 + (hypot (c - 1 - (d + 1)) 0 + hypot (c - 1 - (d - 1)) (- 2)))"
    by (simp add: match_score_def square_at_def upt_rec pointDist_def)
  have b: "4 * \<bar>c - d\<bar> \<le> hypot (c + 1 - (d - 1)) 0 + (hypot (c + 1 - (d + 1)) 2 + (hypot (c - 1 - (d + 1)) 0 + hypot (c - 1 - (d - 1)) (- 2)))"
  proof (rule four_bound)
    show "\<bar>c + 1 - (d - 1)\<bar> \<le> hypot (c + 1 - (d - 1)) 0" by (rule hypot_ge_abs)
    show "\<bar>c + 1 - (d + 1)\<bar> \<le> hypot (c + 1 - (d + 1)) 2" by (rule hypot_ge_abs)
    show "\<bar>c - 1 - (d + 1)\<bar> \<le> hypot (c - 1 - (d + 1)) 0" by (rule hypot_ge_abs)
    show "\<bar>c - 1 - (d - 1)\<bar> \<le> hypot (c - 1 - (d - 1)) (- 2)" by (rule hypot_ge_abs)
    show "4 * \<bar>c - d\<bar> \<le> \<bar>c + 1 - (d - 1)\<bar> + \<bar>c + 1 - (d + 1)\<bar> + \<bar>c - 1 - (d + 1)\<bar> + \<bar>c - 1 - (d - 1)\<bar>" by (simp add: abs_if)
  qed
  show ?thesis unfolding e by (rule b)
qed

lemma square_score2:
  "4 * \<bar>c - d\<bar> \<le> match_score
     [\<lparr>px = c + 1, py = 1\<rparr>, \<lparr>px = c - 1, py = 1\<rparr>, \<lparr>px = c - 1, py = - 1\<rparr>, \<lparr>px = c + 1, py = - 1\<rparr>]
     (square_at d)"
proof -
  have e: "match_score
     [\<lparr>px = c + 1, py = 1\<rparr>, \<lparr>px = c - 1, py = 1\<rparr>, \<lparr>px = c - 1, py = - 1\<rparr>, \<lparr>px = c + 1, py = - 1\<rparr>]
     (square_at d)
    = hypot (c + 1 - (d - 1)) 2 + (hypot (c - 1 - (d + 1)) 2 + (hypot (c - 1 - (d + 1)) (- 2) + hypot (c + 1 - (d - 1)) (- 2)))"
    by (simp add: match_score_def square_at_def upt_rec pointDist_def)
  have b: "4 * \<bar>c - d\<bar> \<le> hypot (c + 1 - (d - 1)) 2 + (hypot (c - 1 - (d + 1)) 2 + (hypot (c - 1 - (d + 1)) (- 2) + hypot (c + 1 - (d - 1)) (- 2)))"
  proof (rule four_bound)
    show "\<bar>c + 1 - (d - 1)\<bar> \<le> hypot (c + 1 - (d - 1)) 2" by (rule hypot_ge_abs)
    show "\<bar>c - 1 - (d + 1)\<bar> \<le> hypot (c - 1 - (d + 1)) 2" by (rule hypot_ge_abs)
    show "\<bar>c - 1 - (d + 1)\<bar> \<le> hypot (c - 1 - (d + 1)) (- 2)" by (rule hypot_ge_abs)
    show "\<bar>c + 1 - (d - 1)\<bar> \<le> hypot (c + 1 - (d - 1)) (- 2)" by (rule hypot_ge_abs)
    show "4 * \<bar>c - d\<bar> \<le> \<bar>c + 1 - (d - 1)\<bar> + \<bar>c - 1 - (d + 1)\<bar> + \<bar>c - 1 - (d + 1)\<bar> + \<bar>c + 1 - (d - 1)\<bar>" by (simp add: abs_if)
  qed
  show ?thesis unfolding e by (rule b)
qed

lemma square_score3:
  "4 * \<bar>c - d\<bar> \<le> match_score
     [\<lparr>px = c - 1, py = 1\<rparr>, \<lparr>px = c - 1, py = - 1\<rparr>, \<lparr>px = c + 1, py = - 1\<rparr>, \<lparr>px = c + 1, py = 1\<rparr>]
     (square_at d)"
proof -
  have e: "match_score
     [\<lparr>px = c - 1, py = 1\<rparr>, \<lparr>px = c - 1, py = - 1\<rparr>, \<lparr>px = c + 1, py = - 1\<rparr>, \<lparr>px = c + 1, py = 1\<rparr>]
     (square_at d)
    = hypot (c - 1 - (d - 1)) 2 + (hypot (c - 1 - (d + 1)) 0 + (hypot (c + 1 - (d + 1)) (- 2) + hypot (c + 1 - (d - 1)) 0))"
    by (simp add: match_score_def square_at_def upt_rec pointDist_def)
  have b: "4 * \<bar>c - d\<bar> \<le> hypot (c - 1 - (d - 1)) 2 + (hypot (c - 1 - (d + 1)) 0 + (hypot (c + 1 - (d + 1)) (- 2) + hypot (c + 1 - (d - 1)) 0))"
  proof (rule four_bound)
    show "\<bar>c - 1 - (d - 1)\<bar> \<le> hypot (c - 1 - (d - 1)) 2" by (rule hypot_ge_abs)
    show "\<bar>c - 1 - (d + 1)\<bar> \<le> hypot (c - 1 - (d + 1)) 0" by (rule hypot_ge_abs)
    show "\<bar>c + 1 - (d + 1)\<bar> \<le> hypot (c + 1 - (d + 1)) (- 2)" by (rule hypot_ge_abs)
    show "\<bar>c + 1 - (d - 1)\<bar> \<le> hypot (c + 1 - (d - 1)) 0" by (rule hypot_ge_abs)
    show "4 * \<bar>c - d\<bar> \<le> \<bar>c - 1 - (d - 1)\<bar> + \<bar>c - 1 - (d + 1)\<bar> + \<bar>c + 1 - (d + 1)\<bar> + \<bar>c + 1 - (d - 1)\<bar>" by (simp add: abs_if)
  qed
  show ?thesis unfolding e by (rule b)
qed

lemma match_better_first: "match_better ref (None, None) cand = (Some cand, Some (match_score cand ref))"
  by (simp add: match_better_def)

lemma match_better_keep:
  "b \<le> match_score cand ref \<Longrightarrow> match_better ref (x, Some b) cand = (x, Some b)"
  by (simp add: match_better_def)

lemma square_match: "matchPolygonToReference (square_at c) (square_at d) = square_at c"
proof -
  have l: "3 \<le> length (square_at c)" "length (square_at d) = length (square_at c)"
    by (simp_all add: square_at_def)
  show ?thesis
    unfolding match_unfold [OF l square_sort] square_bases
    by (simp add: square_rotations match_better_first square_score0
        match_better_keep [OF square_score1] match_better_keep [OF square_score2]
        match_better_keep [OF square_score3] del: length_0_conv)
qed

lemma square_canonical:
  "canonicalizePolygon (square_at c) None = square_at c"
  "canonicalizePolygon (square_at c) (Some (square_at d)) = square_at c"
proof -
  have l: "length (square_at c) = 4" "length (square_at d) = 4" by (simp_all add: square_at_def)
  show "canonicalizePolygon (square_at c) None = square_at c"
    by (simp add: canonicalizePolygon_def Let_def l square_sort square_topLeft)
  show "canonicalizePolygon (square_at c) (Some (square_at d)) = square_at c"
    by (simp add: canonicalizePolygon_def Let_def l square_sort square_match)
qed

lemma hypot_zero_left: "hypot 0 v = \<bar>v\<bar>"
  by (simp add: hypot_def)

lemma square_valid: "isValidTrailPolygon (square_at c)"
  by (simp add: isValidTrailPolygon_def isSelfIntersectingPolygon_def square_at_def upt_rec
      segmentsIntersect_def orient2_def onSegment_def Let_def)

lemma foldl_pick:
  assumes "\<And>acc i. fst (f acc i) = fst acc \<or> fst (f acc i) = i"
  shows "fst (foldl f acc idxs) \<in> insert (fst acc) (set idxs)"
proof (induction idxs arbitrary: acc)
  case Nil
  then show ?case by simp
next
  case (Cons i rest)
  from Cons [of "f acc i"] assms [of acc i] show ?case by auto
qed

lemma leadIdx_lt:
  assumes "pts \<noteq> []"
  shows "leadIdx_of pts tp < length pts"
proof -
  have "leadIdx_of pts tp \<in> insert (fst (0::nat, None :: real option)) (set [0..<length pts])"
    unfolding leadIdx_of_def
  proof (rule foldl_pick)
    fix acc :: "nat \<times> real option" and i :: nat
    show "fst ((\<lambda>(leadIdx, bestD2) i.
            let dx = px (pts ! i) - px tp;
                dy = py (pts ! i) - py tp;
                d2 = dx * dx + dy * dy
            in case bestD2 of
                 None \<Rightarrow> (i, Some d2)
               | Some b \<Rightarrow> if d2 < b then (i, Some d2) else (leadIdx, bestD2)) acc i) = fst acc
        \<or> fst ((\<lambda>(leadIdx, bestD2) i.
            let dx = px (pts ! i) - px tp;
                dy = py (pts ! i) - py tp;
                d2 = dx * dx + dy * dy
            in case bestD2 of
                 None \<Rightarrow> (i, Some d2)
               | Some b \<Rightarrow> if d2 < b then (i, Some d2) else (leadIdx, bestD2)) acc i) = i"
      by (cases acc) (simp add: Let_def split: option.splits)
  qed
  then show ?thesis using assms by auto
qed

lemma square_enforce: "enforceLeadingAxisCorner (square_at c) tp = square_at c"
proof (cases tp)
  case None
  then show ?thesis by (simp add: enforceLeadingAxisCorner_def clonePolygon_id)
next
  case (Some t)
  have v: "isValidTrailPolygon [\<lparr>px = c - 1, py = - 1\<rparr>, \<lparr>px = c + 1, py = - 1\<rparr>,
                  \<lparr>px = c + 1, py = 1\<rparr>, \<lparr>px = c - 1, py = 1\<rparr>]"
    using square_valid [of c] by (simp add: square_at_def)
  have "leadIdx_of (square_at c) t < length (square_at c)"
    by (rule leadIdx_lt) (simp add: square_at_def)
  then have "leadIdx_of (square_at c) t < 4" by (simp add: square_at_def)
  then consider "leadIdx_of (square_at c) t = 0" | "leadIdx_of (square_at c) t = 1"
    | "leadIdx_of (square_at c) t = 2" | "leadIdx_of (square_at c) t = 3" by linarith
  then show ?thesis
  proof cases
    case 1
    then show ?thesis using v unfolding Some
      by (simp add: enforceLeadingAxisCorner_def Let_def clonePolygon_id square_at_def
          pointDist_def hypot_zero_left hypot_zero_right)
  next
    case 2
    then show ?thesis using v unfolding Some
      by (simp add: enforceLeadingAxisCorner_def Let_def clonePolygon_id square_at_def
          pointDist_def hypot_zero_left hypot_zero_right)
  next
    case 3
    then show ?thesis using v unfolding Some
      by (simp add: enforceLeadingAxisCorner_def Let_def clonePolygon_id square_at_def
          pointDist_def hypot_zero_left hypot_zero_right)
  next
    case 4
    then show ?thesis using v unfolding Some
      by (simp add: enforceLeadingAxisCorner_def Let_def clonePolygon_id square_at_def
          pointDist_def hypot_zero_left hypot_zero_right)
  qed
qed

lemma square_lerp: "lerpPolygon (square_at a) (square_at b) t = square_at (lerp a b t)"
  by (simp add: lerpPolygon_def square_at_def lerpPoint_def lerp_def algebra_simps)

lemma square_maxCornerDelta: "maxCornerDelta (square_at a) (square_at b) = \<bar>a - b\<bar>"
  by (simp add: maxCornerDelta_def square_at_def upt_rec pointDist_def hypot_zero_right)

lemma square_avgCornerDelta: "avgCornerDelta (square_at a) (square_at b) = \<bar>a - b\<bar>"
  by (simp add: avgCornerDelta_def square_at_def upt_rec pointDist_def hypot_zero_right)

lemma square_perimeter: "perimeter (square_at c) = 8"
  by (simp add: perimeter_def square_at_def upt_rec pointDist_def hypot_zero_right hypot_zero_left)

lemma square_metric: "interpMetric (square_sample stampMs a) (square_at b) = \<bar>b - a\<bar>"
  by (simp add: interpMetric_def Let_def square_sample_def square_center square_maxCornerDelta
      square_avgCornerDelta square_perimeter hypot_zero_right abs_minus_commute)

subsection \<open>Pushing the scenario squares\<close>

lemma segments_pos: "1 \<le> segments_of cfg q m"
  by (simp add: segments_of_def Let_def)

lemma square_prepare_first:
  "push_prepare CFG_trail trail_empty (square_at c) tp = square_at c"
  by (simp add: push_prepare_def Let_def CFG_trail_def trail_empty_def clonePolygon_id
      square_canonical square_enforce)

lemma square_prepare_next:
  "push_prepare CFG_trail \<lparr>trail = tr, lastPushed = Some (square_sample s a)\<rparr> (square_at b) tp
     = square_at b"
  by (simp add: push_prepare_def Let_def CFG_trail_def clonePolygon_id square_sample_def
      square_canonical square_enforce)

lemma square_clamp_far:
  assumes "\<bar>b - a\<bar> \<le> m"
  shows "map (\<lambda>i. clampPointStep (square_at a ! i) (square_at b ! i) m) [0..<length (square_at b)]
     = square_at b"
  using assms
  by (simp add: square_at_def upt_rec clampPointStep_def Let_def hypot_zero_right)

lemma square_process_far:
  assumes "64 \<le> \<bar>b - a\<bar>"
  shows "push_process CFG_trail (square_sample s a) (square_at b) tp = square_at b"
proof -
  have l: "length (square_at a) = length (square_at b)" by (simp add: square_at_def)
  have r: "clamp (\<bar>b - a\<bar> / 64) 0 1 = 1" using assms by (simp add: clamp_def)
  have m: "\<bar>b - a\<bar> \<le> 8 + 4 * \<bar>b - a\<bar>" by simp
  show ?thesis
    unfolding push_process_def Let_def
    by (simp add: CFG_trail_def square_sample_def square_center square_canonical square_enforce
        hypot_zero_right js_or_def l r square_clamp_far [OF m])
qed

lemma square_process_same:
  "push_process CFG_trail (square_sample s a) (square_at a) tp = square_at a"
proof -
  have l: "length (square_at a) = length (square_at a)" by simp
  have m: "\<bar>a - a\<bar> \<le> 8" by simp
  have lr: "lerp a a (8 / 25) = a" by (simp add: lerp_def)
  show ?thesis
    unfolding push_process_def Let_def
    by (simp add: CFG_trail_def square_sample_def square_center square_canonical square_enforce
        hypot_def js_or_def clamp_def square_lerp lr square_clamp_far [OF m])
qed

lemma square_length: "length (square_at c) = 4"
  by (simp add: square_at_def)

lemma square_interp_entry:
  "interp_entry CFG_trail (square_sample s a) (square_at b) tp seg (square_at d) i
     = square_at (lerp a b (real i / real_of_int seg))"
  by (simp add: interp_entry_def Let_def CFG_trail_def square_sample_def square_lerp
      square_canonical square_enforce square_length)

lemma square_interp_loop:
  "interp_loop CFG_trail (square_sample s a) (square_at b) tp stampMs seg idxs (tr, square_at d, pa)
   = (tr @ map (\<lambda>i. square_sample stampMs (lerp a b (real i / real_of_int seg))) idxs,
      square_at (if idxs = [] then d else lerp a b (real (last idxs) / real_of_int seg)),
      pa \<or> idxs \<noteq> [])"
proof (induction idxs arbitrary: tr d pa)
  case Nil
  then show ?case by simp
next
  case (Cons i rest)
  have e: "\<lparr>s_t = stampMs, s_cx = lerp a b (real i / real_of_int seg), s_cy = 0,
            s_pts = square_at (lerp a b (real i / real_of_int seg))\<rparr>
          = square_sample stampMs (lerp a b (real i / real_of_int seg))"
    by (simp add: square_sample_def)
  show ?case
    by (simp add: square_interp_entry square_valid Let_def square_center e Cons)
qed

lemma square_push_first:
  "pushTrailPolygon CFG_trail (square_at c) tp stampMs q trail_empty
     = \<lparr>trail = [square_sample stampMs c], lastPushed = Some (square_sample stampMs c)\<rparr>"
proof -
  have cap: "capTrail CFG_trail [square_sample stampMs c] = [square_sample stampMs c]"
    by (simp add: capTrail_def CFG_trail_def)
  have e: "\<lparr>s_t = stampMs, s_cx = c, s_cy = 0, s_pts = square_at c\<rparr> = square_sample stampMs c"
    by (simp add: square_sample_def)
  have t: "trail trail_empty = []" "lastPushed trail_empty = None" by (simp_all add: trail_empty_def)
  show ?thesis
    by (simp add: pushTrailPolygon_def Let_def square_prepare_first square_valid square_length
        square_center e t cap)
qed

lemma CFG_threshold: "moveThreshold CFG_trail = 8 / 100"
  by (simp add: moveThreshold_def CFG_trail_def)

lemma square_push_far:
  assumes far: "64 \<le> \<bar>b - a\<bar>"
  shows "pushTrailPolygon CFG_trail (square_at b) tp stampMs q
           \<lparr>trail = tr, lastPushed = Some (square_sample s a)\<rparr>
     = \<lparr>trail = capTrail CFG_trail (tr @ map (\<lambda>i. square_sample stampMs
                (lerp a b (real i / real_of_int (segments_of CFG_trail q \<bar>b - a\<bar>))))
                [1..<nat (segments_of CFG_trail q \<bar>b - a\<bar>) + 1]),
        lastPushed = Some (square_sample stampMs b)\<rparr>"
proof -
  define seg where "seg = segments_of CFG_trail q \<bar>b - a\<bar>"
  have sp: "1 \<le> seg" unfolding seg_def by (rule segments_pos)
  have m: "\<not> \<bar>b - a\<bar> < 8 / 100" using far by simp
  have pts: "s_pts (square_sample s a) = square_at a" by (simp add: square_sample_def)
  have ns: "Suc 0 \<le> nat seg" using sp by linarith
  have ne: "[1..<nat seg + 1] \<noteq> []" using ns by simp
  have la: "last [1..<nat seg + 1] = nat seg" using ns by simp
  have one: "real (nat seg) / real_of_int seg = 1" using sp by simp
  have lst: "last (tr @ map (\<lambda>i. square_sample stampMs (lerp a b (real i / real_of_int seg))) [1..<nat seg + 1])
      = square_sample stampMs b"
    using ne by (simp add: last_map la one lerp_def del: upt_Suc)
  have lst': "last (map (\<lambda>i. square_sample stampMs (lerp a b (real i / real_of_int seg))) [1..<nat seg + 1])
      = square_sample stampMs b"
    using ne by (simp add: last_map la one lerp_def del: upt_Suc)
  show ?thesis
    unfolding pushTrailPolygon_def Let_def
    using m sp ns lst'
    by (simp add: square_length square_prepare_next square_valid square_process_far [OF far]
        square_metric CFG_threshold seg_def [symmetric] pts square_interp_loop)
qed

lemma square_push_same:
  "pushTrailPolygon CFG_trail (square_at a) tp stampMs q
           \<lparr>trail = tr, lastPushed = Some (square_sample s a)\<rparr>
     = \<lparr>trail = tr, lastPushed = Some (square_sample s a)\<rparr>"
  unfolding pushTrailPolygon_def Let_def
  by (simp add: square_length square_prepare_next square_valid square_process_same
      square_metric CFG_threshold)

lemma CFG_segments_full: "segments_of CFG_trail 1 \<bar>200 - 0\<bar> = 4"
  by (simp add: segments_of_def adaptiveStep_of_def Let_def CFG_trail_def js_or_def js_round_def)

lemma CFG_segments_low: "segments_of CFG_trail (2 / 5) \<bar>200 - 0\<bar> = 2"
  by (simp add: segments_of_def adaptiveStep_of_def Let_def CFG_trail_def js_or_def js_round_def)

lemma scenario_first:
  "pushTrailPolygon CFG_trail (square_at 0) (Some \<lparr>px = 0, py = 0\<rparr>) 0 1 trail_empty = store_after_first"
  by (simp add: square_push_first store_after_first_def)

lemma scenario_full:
  "pushTrailPolygon CFG_trail (square_at 200) (Some \<lparr>px = 200, py = 0\<rparr>) 16 1 store_after_first
   = \<lparr>trail = [square_sample 0 0, square_sample 16 50, square_sample 16 100,
                square_sample 16 150, square_sample 16 200],
      lastPushed = Some (square_sample 16 200)\<rparr>"
proof -
  have far: "64 \<le> \<bar>200 - 0 :: real\<bar>" by simp
  show ?thesis
    unfolding store_after_first_def square_push_far [OF far] CFG_segments_full
    by (simp add: upt_rec lerp_def capTrail_def CFG_trail_def)
qed

lemma scenario_low:
  "pushTrailPolygon CFG_trail (square_at 200) (Some \<lparr>px = 200, py = 0\<rparr>) 16 (2 / 5) store_after_first
   = \<lparr>trail = [square_sample 0 0, square_sample 16 100, square_sample 16 200],
      lastPushed = Some (square_sample 16 200)\<rparr>"
proof -
  have far: "64 \<le> \<bar>200 - 0 :: real\<bar>" by simp
  show ?thesis
    unfolding store_after_first_def square_push_far [OF far] CFG_segments_low
    by (simp add: upt_rec lerp_def capTrail_def CFG_trail_def)
qed

lemma CFG_segments_mid: "segments_of CFG_trail (11 / 20) \<bar>200 - 0\<bar> = 2"
  by (simp add: segments_of_def adaptiveStep_of_def Let_def CFG_trail_def js_or_def js_round_def)

lemma scenario_mid:
  "pushTrailPolygon CFG_trail (square_at 200) (Some \<lparr>px = 200, py = 0\<rparr>) 16 (11 / 20) store_after_first
   = \<lparr>trail = [square_sample 0 0, square_sample 16 100, square_sample 16 200],
      lastPushed = Some (square_sample 16 200)\<rparr>"
proof -
  have far: "64 \<le> \<bar>200 - 0 :: real\<bar>" by simp
  show ?thesis
    unfolding store_after_first_def square_push_far [OF far] CFG_segments_mid
    by (simp add: upt_rec lerp_def capTrail_def CFG_trail_def)
qed

text \<open>Only the cap reads \<open>maxRects\<close>.\<close>

lemma maxRects_unread:
  "push_prepare (cfg\<lparr>maxRects := m\<rparr>) st poly tp = push_prepare cfg st poly tp"
  "push_process (cfg\<lparr>maxRects := m\<rparr>) lp pts tp = push_process cfg lp pts tp"
  "moveThreshold (cfg\<lparr>maxRects := m\<rparr>) = moveThreshold cfg"
  "segments_of (cfg\<lparr>maxRects := m\<rparr>) q metric = segments_of cfg q metric"
  "interp_entry (cfg\<lparr>maxRects := m\<rparr>) lp pts tp seg prev i = interp_entry cfg lp pts tp seg prev i"
  by (simp_all add: push_prepare_def push_process_def moveThreshold_def segments_of_def
      adaptiveStep_of_def interp_entry_def cong del: if_weak_cong)

lemma interp_steps_maxRects:
  "interp_steps (cfg\<lparr>maxRects := m\<rparr>) lp pts tp stampMs seg idxs prev
     = interp_steps cfg lp pts tp stampMs seg idxs prev"
  by (induction idxs arbitrary: prev) (simp_all add: maxRects_unread Let_def)

lemma push_maxRects:
  "pushTrailPolygon (cfg\<lparr>maxRects := m\<rparr>) poly tp stampMs q st = st
   \<and> pushTrailPolygon cfg poly tp stampMs q st = st
   \<or> pushTrailPolygon (cfg\<lparr>maxRects := m\<rparr>) poly tp stampMs q st
       = \<lparr>trail = capTrail (cfg\<lparr>maxRects := m\<rparr>) (trail st @ appended_samples cfg poly tp stampMs q st),
          lastPushed = lastPushed (pushTrailPolygon cfg poly tp stampMs q st)\<rparr>"
  by (simp add: pushTrailPolygon_def appended_samples_def Let_def interp_loop_steps
      maxRects_unread interp_steps_maxRects split: option.split del: upt_Suc)

lemma pushed_map_Some: "pushed (map (\<lambda>i. Some (f i)) idxs) = map f idxs"
  by (induction idxs) (simp_all add: pushed_simps)

lemma square_interp_steps:
  "interp_steps CFG_trail (square_sample s a) (square_at b) tp stampMs seg idxs (square_at d)
   = map (\<lambda>i. Some (square_sample stampMs (lerp a b (real i / real_of_int seg)))) idxs"
proof (induction idxs arbitrary: d)
  case Nil
  then show ?case by simp
next
  case (Cons i rest)
  have e: "\<lparr>s_t = stampMs, s_cx = lerp a b (real i / real_of_int seg), s_cy = 0,
            s_pts = square_at (lerp a b (real i / real_of_int seg))\<rparr>
          = square_sample stampMs (lerp a b (real i / real_of_int seg))"
    by (simp add: square_sample_def)
  show ?case
    by (simp add: square_interp_entry square_valid Let_def square_center e Cons)
qed

lemma square_appended_first:
  "appended_samples CFG_trail (square_at c) tp stampMs q trail_empty = [square_sample stampMs c]"
proof -
  have t: "lastPushed trail_empty = None" by (simp add: trail_empty_def)
  show ?thesis
    by (simp add: appended_samples_def Let_def square_prepare_first square_valid square_length
        square_center t square_sample_def)
qed

lemma square_appended_far:
  assumes far: "64 \<le> \<bar>b - a\<bar>"
  shows "appended_samples CFG_trail (square_at b) tp stampMs q
           \<lparr>trail = tr, lastPushed = Some (square_sample s a)\<rparr>
     = map (\<lambda>i. square_sample stampMs
                (lerp a b (real i / real_of_int (segments_of CFG_trail q \<bar>b - a\<bar>))))
         [1..<nat (segments_of CFG_trail q \<bar>b - a\<bar>) + 1]"
proof -
  have m: "\<not> \<bar>b - a\<bar> * 25 < 2" using far by simp
  have pts: "s_pts (square_sample s a) = square_at a" by (simp add: square_sample_def)
  show ?thesis
    unfolding appended_samples_def Let_def
    using m
    by (simp add: square_length square_prepare_next square_valid square_process_far [OF far]
        square_metric CFG_threshold pts square_interp_steps pushed_map_Some del: upt_Suc)
qed

lemma small_first:
  "pushTrailPolygon CFG_trail_small (square_at 0) (Some \<lparr>px = 0, py = 0\<rparr>) 0 1 trail_empty
     = store_after_first"
  using push_maxRects [where cfg = CFG_trail and m = 3 and poly = "square_at 0"
      and tp = "Some \<lparr>px = 0, py = 0\<rparr>" and stampMs = 0 and q = 1 and st = trail_empty]
  unfolding CFG_trail_small_def [symmetric] scenario_first square_appended_first
  by (auto simp add: store_after_first_def trail_empty_def capTrail_def CFG_trail_small_def)

lemma small_second:
  "pushTrailPolygon CFG_trail_small (square_at 200) (Some \<lparr>px = 200, py = 0\<rparr>) 16 1 store_after_first
     = \<lparr>trail = [square_sample 16 100, square_sample 16 150, square_sample 16 200],
        lastPushed = Some (square_sample 16 200)\<rparr>"
proof -
  have far: "64 \<le> \<bar>200 - 0 :: real\<bar>" by simp
  have a: "appended_samples CFG_trail (square_at 200) (Some \<lparr>px = 200, py = 0\<rparr>) 16 1 store_after_first
      = [square_sample 16 50, square_sample 16 100, square_sample 16 150, square_sample 16 200]"
    unfolding store_after_first_def square_appended_far [OF far] CFG_segments_full
    by (simp add: upt_rec lerp_def)
  from push_maxRects [where cfg = CFG_trail and m = 3 and poly = "square_at 200"
      and tp = "Some \<lparr>px = 200, py = 0\<rparr>" and stampMs = 16 and q = 1 and st = store_after_first]
  show ?thesis
    unfolding CFG_trail_small_def [symmetric] scenario_full a
    by (auto simp add: store_after_first_def capTrail_def CFG_trail_small_def)
qed

lemma small_run:
  "trail_run CFG_trail_small [Push (square_at 0) (Some \<lparr>px = 0, py = 0\<rparr>) 0 1,
                              Push (square_at 200) (Some \<lparr>px = 200, py = 0\<rparr>) 16 1]
   = \<lparr>trail = [square_sample 16 100, square_sample 16 150, square_sample 16 200],
      lastPushed = Some (square_sample 16 200)\<rparr>"
  by (simp add: trail_run_def small_first small_second)

text \<open>Pushing the rectangle and then the same rectangle listed from the opposite corner.\<close>

lemma hypot_6_8: "hypot (- 6) (- 8) = 10" "hypot 6 (- 8) = 10" "hypot 6 8 = 10" "hypot (- 6) 8 = 10"
  by (simp_all add: hypot_def real_sqrt_unique)

lemma rect_center: "polygonCenter (rect_scaled k) = \<lparr>px = 0, py = 0\<rparr>"
  by (simp add: polygonCenter_def rect_scaled_def)

lemma rect_valid:
  "isValidTrailPolygon (rect_scaled 1)" "isValidTrailPolygon (rect_scaled (1 / 2))"
  "isValidTrailPolygon (rect_scaled (- (1 / 2)))" "isValidTrailPolygon (rect_scaled (- 1))"
  by (simp_all add: isValidTrailPolygon_def isSelfIntersectingPolygon_def rect_scaled_def upt_rec
      segmentsIntersect_def orient2_def onSegment_def Let_def cong: Let_value_cong)

lemma rect_zero_invalid: "\<not> isValidTrailPolygon (rect_scaled 0)"
  by (simp add: isValidTrailPolygon_def isSelfIntersectingPolygon_def rect_scaled_def upt_rec
      segmentsIntersect_def orient2_def onSegment_def Let_def cong: Let_value_cong)

lemma rect_lerp: "lerpPolygon (rect_scaled a) (rect_scaled b) t = rect_scaled (lerp a b t)"
  by (simp add: lerpPolygon_def rect_scaled_def lerpPoint_def lerp_def algebra_simps)

lemma rect_prepare: "push_prepare CFG_trail_raw st (rect_scaled k) None = rect_scaled k"
  by (simp add: push_prepare_def Let_def CFG_trail_raw_def CFG_trail_def clonePolygon_id)

lemma rect_process:
  "push_process CFG_trail_raw (rect_sample s 1) (rect_scaled (- 1)) None = rect_scaled (- 1)"
  by (simp add: push_process_def Let_def CFG_trail_raw_def CFG_trail_def clamp_def
      cong: Let_value_cong)

lemma rect_metric: "interpMetric (rect_sample s 1) (rect_scaled (- 1)) = 10"
  by (simp add: interpMetric_def polygonCenter_def rect_sample_def rect_scaled_def maxCornerDelta_def
      avgCornerDelta_def perimeter_def pointDist_def hypot_6_8 hypot_zero_left hypot_zero_right
      upt_rec Let_def cong: Let_value_cong)

lemma raw_segments:
  "segments_of CFG_trail_raw 1 10 = 4" "spec_segments CFG_trail_raw 1 10 = 4"
  "moveThreshold CFG_trail_raw = 8 / 100"
  by (simp_all add: segments_of_def spec_segments_def adaptiveStep_of_def moveThreshold_def Let_def
      CFG_trail_raw_def CFG_trail_def js_or_def js_round_def)

lemma rect_entry:
  "interp_entry CFG_trail_raw (rect_sample s 1) (rect_scaled (- 1)) None 4 prev i
     = rect_scaled (lerp 1 (- 1) (real i / 4))"
  by (simp add: interp_entry_def Let_def CFG_trail_raw_def CFG_trail_def rect_sample_def rect_lerp)

lemma rect_steps:
  "interp_steps CFG_trail_raw (rect_sample 0 1) (rect_scaled (- 1)) None 16 4 [1, 2, 3, 4]
      (rect_scaled 1)
     = [Some (rect_sample 16 (1 / 2)), None, Some (rect_sample 16 (- (1 / 2))),
        Some (rect_sample 16 (- 1))]"
proof -
  have e: "\<lparr>s_t = 16, s_cx = 0, s_cy = 0, s_pts = rect_scaled k\<rparr> = rect_sample 16 k" for k
    by (simp add: rect_sample_def)
  show ?thesis
    by (simp add: rect_entry lerp_def rect_valid rect_zero_invalid rect_center e Let_def)
qed

lemma rect_first:
  "pushTrailPolygon CFG_trail_raw (rect_scaled 1) None 0 1 trail_empty = store_after_rect"
proof -
  have t: "lastPushed trail_empty = None" "trail trail_empty = []" by (simp_all add: trail_empty_def)
  have l: "\<not> length (rect_scaled 1) < 3" by (simp add: rect_scaled_def)
  have mr: "maxRects CFG_trail_raw = 30" by (simp add: CFG_trail_raw_def CFG_trail_def)
  show ?thesis
    by (simp add: pushTrailPolygon_def Let_def rect_prepare rect_valid rect_center t l
        store_after_rect_def rect_sample_def capTrail_def mr)
qed

lemma rect_second:
  "pushTrailPolygon CFG_trail_raw (rect_scaled (- 1)) None 16 1 store_after_rect
     = \<lparr>trail = [rect_sample 0 1, rect_sample 16 (1 / 2), rect_sample 16 (- (1 / 2)),
                  rect_sample 16 (- 1)],
        lastPushed = Some (rect_sample 16 (- 1))\<rparr>"
proof -
  have l: "3 \<le> length (rect_scaled (- 1))" by (simp add: rect_scaled_def)
  have u: "[1..<nat 4 + 1] = [1, 2, 3, 4]" by (simp add: upt_rec)
  have p: "s_pts (rect_sample 0 1) = rect_scaled 1" by (simp add: rect_sample_def)
  have lp: "lastPushed store_after_rect = Some (rect_sample 0 1)" by (simp add: store_after_rect_def)
  have s: "segments_of CFG_trail_raw 1 (interpMetric (rect_sample 0 1) (rect_scaled (- 1))) = 4"
    by (simp add: rect_metric raw_segments)
  have m: "\<not> interpMetric (rect_sample 0 1) (rect_scaled (- 1)) < moveThreshold CFG_trail_raw"
    by (simp add: rect_metric raw_segments)
  have v: "isValidTrailPolygon (push_prepare CFG_trail_raw store_after_rect (rect_scaled (- 1)) None)"
    by (simp add: rect_prepare rect_valid)
  have pr: "rect_scaled (- 1) = push_process CFG_trail_raw (rect_sample 0 1)
              (push_prepare CFG_trail_raw store_after_rect (rect_scaled (- 1)) None) None"
    by (simp add: rect_prepare rect_process)
  have st: "[Some (rect_sample 16 (1 / 2)), None, Some (rect_sample 16 (- (1 / 2))),
        Some (rect_sample 16 (- 1))]
      = interp_steps CFG_trail_raw (rect_sample 0 1) (rect_scaled (- 1)) None 16 4 [1..<nat 4 + 1]
          (s_pts (rect_sample 0 1))"
    unfolding u p by (rule rect_steps [symmetric])
  from push_passed [OF lp l v pr rect_valid(4) m s [symmetric] st]
  show ?thesis
    by (simp add: pushed_simps store_after_rect_def capTrail_def CFG_trail_raw_def CFG_trail_def)
qed

subsection \<open>Claims about the trail store\<close>

lemma scenario_run:
  "trail_run CFG_trail [Push (square_at 0) (Some \<lparr>px = 0, py = 0\<rparr>) 0 1,
                        Push (square_at 200) (Some \<lparr>px = 200, py = 0\<rparr>) 16 1]
   = \<lparr>trail = [square_sample 0 0, square_sample 16 50, square_sample 16 100,
                square_sample 16 150, square_sample 16 200],
      lastPushed = Some (square_sample 16 200)\<rparr>"
  by (simp add: trail_run_def scenario_first scenario_full)

text \<open>
  Claim C1. Every sample in the trail buffer, after any sequence of pushes and prunes
  from the empty store, has a polygon of at least 3 vertices that the self-intersection
  check accepts; and a push into any store adds only such samples.
\<close>

theorem stored_polygons_are_simple:
  "(\<forall>e\<in>set (trail (trail_run cfg calls)).
       3 \<le> length (s_pts e) \<and> \<not> isSelfIntersectingPolygon (s_pts e))
   \<and> (\<forall>e\<in>set (trail (pushTrailPolygon cfg poly tp stampMs q st)).
         e \<in> set (trail st) \<or> (3 \<le> length (s_pts e) \<and> \<not> isSelfIntersectingPolygon (s_pts e)))"
proof
  from trail_run_valid [of cfg calls]
  show "\<forall>e\<in>set (trail (trail_run cfg calls)).
       3 \<le> length (s_pts e) \<and> \<not> isSelfIntersectingPolygon (s_pts e)"
    by (simp add: isValidTrailPolygon_def)
next
  from push_shape [of cfg poly tp stampMs q st]
  show "\<forall>e\<in>set (trail (pushTrailPolygon cfg poly tp stampMs q st)).
         e \<in> set (trail st) \<or> (3 \<le> length (s_pts e) \<and> \<not> isSelfIntersectingPolygon (s_pts e))"
  proof
    assume "pushTrailPolygon cfg poly tp stampMs q st = st"
    then show ?thesis by simp
  next
    assume "\<exists>new. trail (pushTrailPolygon cfg poly tp stampMs q st) = capTrail cfg (trail st @ new)
         \<and> length new \<le> (if lastPushed st = None then 1
               else nat (segments_of cfg q (interpMetric (the (lastPushed st))
                      (push_process cfg (the (lastPushed st)) (push_prepare cfg st poly tp) tp))))
         \<and> (\<forall>e\<in>set new. s_t e = stampMs \<and> isValidTrailPolygon (s_pts e))
         \<and> lastPushed (pushTrailPolygon cfg poly tp stampMs q st)
             = (if new = [] then lastPushed st else Some (last new))"
    then obtain new where n: "trail (pushTrailPolygon cfg poly tp stampMs q st) = capTrail cfg (trail st @ new)"
      "\<forall>e\<in>set new. s_t e = stampMs \<and> isValidTrailPolygon (s_pts e)" by blast
    have "set (capTrail cfg (trail st @ new)) \<subseteq> set (trail st) \<union> set new"
      using capTrail_set [of cfg "trail st @ new"] by simp
    with n show ?thesis by (auto simp: isValidTrailPolygon_def)
  qed
qed

theorem stored_polygons_are_simple_witness:
  "trail (trail_run CFG_trail [Push (square_at 0) (Some \<lparr>px = 0, py = 0\<rparr>) 0 1,
                        Push (square_at 200) (Some \<lparr>px = 200, py = 0\<rparr>) 16 1])
     = [square_sample 0 0, square_sample 16 50, square_sample 16 100,
        square_sample 16 150, square_sample 16 200]
   \<and> 3 \<le> length (s_pts (square_sample 16 50))
   \<and> \<not> isSelfIntersectingPolygon (s_pts (square_sample 16 50))
   \<and> 3 \<le> length (s_pts (square_sample 0 0))
   \<and> \<not> isSelfIntersectingPolygon (s_pts (square_sample 0 0))"
  using stored_polygons_are_simple [of CFG_trail
      "[Push (square_at 0) (Some \<lparr>px = 0, py = 0\<rparr>) 0 1,
        Push (square_at 200) (Some \<lparr>px = 200, py = 0\<rparr>) 16 1]"]
  by (simp add: scenario_run)

text \<open>
  Claim C4. After any sequence of pushes and prunes from the empty store the buffer
  holds at most \<open>maxRects\<close> samples; a push leaves the old buffer followed by the samples
  it pushes, with the excess dropped from the front, oldest first (with room for three
  samples, pushing the square at 0 and then at 200 leaves the samples at 100, 150 and
  200); and \<open>pruneTrail(now)\<close> keeps, in their order, exactly the samples whose age is at
  most \<open>ttlMs\<close>.
\<close>

theorem trail_capped_and_pruned:
  "length (trail (trail_run cfg calls)) \<le> maxRects cfg
   \<and> trail (trail_run cfg (calls @ [Push poly tp stampMs q]))
        = drop (length (trail (trail_run cfg calls)
                        @ appended_samples cfg poly tp stampMs q (trail_run cfg calls))
                - maxRects cfg)
            (trail (trail_run cfg calls)
             @ appended_samples cfg poly tp stampMs q (trail_run cfg calls))
   \<and> trail (pruneTrail cfg now st) = filter (\<lambda>e. \<not> now - s_t e > ttlMs cfg) (trail st)
   \<and> trail (trail_run cfg (calls @ [Prune now]))
        = filter (\<lambda>e. \<not> now - s_t e > ttlMs cfg) (trail (trail_run cfg calls))
   \<and> trail (trail_run CFG_trail_small [Push (square_at 0) (Some \<lparr>px = 0, py = 0\<rparr>) 0 1,
                                         Push (square_at 200) (Some \<lparr>px = 200, py = 0\<rparr>) 16 1])
        = [square_sample 16 100, square_sample 16 150, square_sample 16 200]"
proof -
  let ?st = "trail_run cfg calls"
  let ?new = "appended_samples cfg poly tp stampMs q ?st"
  have a: "length (trail ?st) \<le> maxRects cfg" by (rule trail_run_length)
  have r: "trail_run cfg (calls @ [c]) = trail_apply cfg ?st c" for c
    by (simp add: trail_run_def)
  have b: "trail (pushTrailPolygon cfg poly tp stampMs q ?st)
          = drop (length (trail ?st @ ?new) - maxRects cfg) (trail ?st @ ?new)"
    using push_trail_appended [of cfg poly tp stampMs q ?st]
  proof
    assume "trail (pushTrailPolygon cfg poly tp stampMs q ?st) = capTrail cfg (trail ?st @ ?new)"
    then show ?thesis by (simp only: capTrail_drop)
  next
    assume "pushTrailPolygon cfg poly tp stampMs q ?st = ?st \<and> ?new = []"
    then show ?thesis using a by simp
  qed
  show ?thesis using a b by (simp add: r pruneTrail_filter small_run)
qed

text \<open>
  Claim C5, as stated, fails in two ways. The number of interpolation steps is
  \<open>min (max 1 (round (maxInterpPerPush * quality))) (max 1 (ceil (metric / adaptiveStep)))\<close>:
  at quality 0.4 the code appends 2 samples for a 200px move, where the stated formula
  gives \<open>min (4 * 0.4) 250 = 1.6\<close>. And a step whose polygon fails the validity check
  appends nothing: without twist guard and smoothing, moving the rectangle onto itself
  listed from the opposite corner takes 4 steps, the second of which collapses to a point,
  and 3 samples are appended.
\<close>

theorem push_count_counterexample:
  "\<not> interpMetric (square_sample 0 0)
        (push_process CFG_trail (square_sample 0 0)
           (push_prepare CFG_trail store_after_first (square_at 200) (Some \<lparr>px = 200, py = 0\<rparr>))
           (Some \<lparr>px = 200, py = 0\<rparr>)) < moveThreshold CFG_trail
   \<and> real (length (trail (pushTrailPolygon CFG_trail (square_at 200) (Some \<lparr>px = 200, py = 0\<rparr>)
                      16 (2 / 5) store_after_first))
            - length (trail store_after_first))
       \<noteq> spec_segments CFG_trail (2 / 5)
           (interpMetric (square_sample 0 0)
              (push_process CFG_trail (square_sample 0 0)
                 (push_prepare CFG_trail store_after_first (square_at 200) (Some \<lparr>px = 200, py = 0\<rparr>))
                 (Some \<lparr>px = 200, py = 0\<rparr>)))
   \<and> pushTrailPolygon CFG_trail_raw (rect_scaled 1) None 0 1 trail_empty = store_after_rect
   \<and> \<not> interpMetric (rect_sample 0 1)
        (push_process CFG_trail_raw (rect_sample 0 1)
           (push_prepare CFG_trail_raw store_after_rect (rect_scaled (- 1)) None) None)
        < moveThreshold CFG_trail_raw
   \<and> real (length (trail (pushTrailPolygon CFG_trail_raw (rect_scaled (- 1)) None 16 1
                            store_after_rect))
            - length (trail store_after_rect))
       \<noteq> spec_segments CFG_trail_raw 1
           (interpMetric (rect_sample 0 1)
              (push_process CFG_trail_raw (rect_sample 0 1)
                 (push_prepare CFG_trail_raw store_after_rect (rect_scaled (- 1)) None) None))"
proof -
  have far: "64 \<le> \<bar>200 - 0 :: real\<bar>" by simp
  have p: "push_prepare CFG_trail store_after_first (square_at 200) (Some \<lparr>px = 200, py = 0\<rparr>)
      = square_at 200"
    unfolding store_after_first_def by (rule square_prepare_next)
  have m: "interpMetric (square_sample 0 0)
        (push_process CFG_trail (square_sample 0 0) (square_at 200) (Some \<lparr>px = 200, py = 0\<rparr>)) = 200"
    by (simp add: square_process_far [OF far] square_metric)
  have s: "spec_segments CFG_trail (2 / 5) 200 = 8 / 5"
    by (simp add: spec_segments_def adaptiveStep_of_def CFG_trail_def js_or_def)
  have a: "\<not> interpMetric (square_sample 0 0)
        (push_process CFG_trail (square_sample 0 0)
           (push_prepare CFG_trail store_after_first (square_at 200) (Some \<lparr>px = 200, py = 0\<rparr>))
           (Some \<lparr>px = 200, py = 0\<rparr>)) < moveThreshold CFG_trail
   \<and> real (length (trail (pushTrailPolygon CFG_trail (square_at 200) (Some \<lparr>px = 200, py = 0\<rparr>)
                      16 (2 / 5) store_after_first))
            - length (trail store_after_first))
       \<noteq> spec_segments CFG_trail (2 / 5)
           (interpMetric (square_sample 0 0)
              (push_process CFG_trail (square_sample 0 0)
                 (push_prepare CFG_trail store_after_first (square_at 200) (Some \<lparr>px = 200, py = 0\<rparr>))
                 (Some \<lparr>px = 200, py = 0\<rparr>)))"
    unfolding p m s scenario_low
    by (simp add: store_after_first_def CFG_threshold)
  have b: "\<not> interpMetric (rect_sample 0 1)
        (push_process CFG_trail_raw (rect_sample 0 1)
           (push_prepare CFG_trail_raw store_after_rect (rect_scaled (- 1)) None) None)
        < moveThreshold CFG_trail_raw
   \<and> real (length (trail (pushTrailPolygon CFG_trail_raw (rect_scaled (- 1)) None 16 1
                            store_after_rect))
            - length (trail store_after_rect))
       \<noteq> spec_segments CFG_trail_raw 1
           (interpMetric (rect_sample 0 1)
              (push_process CFG_trail_raw (rect_sample 0 1)
                 (push_prepare CFG_trail_raw store_after_rect (rect_scaled (- 1)) None) None))"
    unfolding rect_prepare rect_process rect_metric raw_segments rect_second
    by (simp add: store_after_rect_def)
  from a b rect_first show ?thesis by simp
qed

text \<open>
  Claim C5, amended. When a push passes the minimum-motion check, the interpolation runs
  \<open>segments = min (max 1 (round (maxInterpPerPush * quality))) (max 1 (ceil (metric / adaptiveStep)))\<close>
  steps, and the buffer becomes the old samples followed, in the order of the steps, by
  exactly one sample for each step whose polygon passes the validity check (then the cap is
  applied): step \<open>i\<close> interpolates at \<open>i / segments\<close> between the previous stored sample
  and the new processed polygon, re-canonicalized against the polygon of the sample
  appended before it and corrected, and its sample carries the timestamp of the call. When
  every step passes the check exactly \<open>segments\<close> samples are appended. For the square
  moved by 200px with \<open>maxInterpPerPush = 4\<close>, exactly 4 samples are appended at quality 1
  (at 50, 100, 150 and 200), exactly 2 at quality 0.4 (at 100 and 200) and exactly 2 at
  quality 0.55, where \<open>4 * 0.55 = 2.2\<close> is rounded down.
\<close>

theorem push_appends_interpolated:
  "(lastPushed st = Some lp \<and> 3 \<le> length poly
      \<and> isValidTrailPolygon (push_prepare cfg st poly tp)
      \<and> pts = push_process cfg lp (push_prepare cfg st poly tp) tp
      \<and> isValidTrailPolygon pts
      \<and> \<not> interpMetric lp pts < moveThreshold cfg
      \<and> seg = min (max 1 (js_round (real (maxInterpPerPush cfg) * q)))
                  (max 1 \<lceil>interpMetric lp pts / adaptiveStep_of cfg q\<rceil>)
      \<and> steps = interp_steps cfg lp pts tp stampMs seg [1..<nat seg + 1] (s_pts lp)
    \<longrightarrow> pushTrailPolygon cfg poly tp stampMs q st
          = \<lparr>trail = capTrail cfg (trail st @ pushed steps),
             lastPushed = (if pushed steps = [] then Some lp else Some (last (pushed steps)))\<rparr>
        \<and> 1 \<le> seg \<and> length steps = nat seg
        \<and> (\<forall>k<nat seg. steps ! k =
              (let entryPts = interp_entry cfg lp pts tp seg
                     (last (s_pts lp # map s_pts (pushed (take k steps)))) (k + 1)
               in if isValidTrailPolygon entryPts
                  then Some \<lparr>s_t = stampMs, s_cx = px (polygonCenter entryPts),
                             s_cy = py (polygonCenter entryPts), s_pts = entryPts\<rparr>
                  else None))
        \<and> ((\<forall>k<nat seg. steps ! k \<noteq> None) \<longrightarrow> length (pushed steps) = nat seg))
   \<and> pushTrailPolygon CFG_trail (square_at 200) (Some \<lparr>px = 200, py = 0\<rparr>) 16 1
        (pushTrailPolygon CFG_trail (square_at 0) (Some \<lparr>px = 0, py = 0\<rparr>) 0 1 trail_empty)
      = \<lparr>trail = [square_sample 0 0, square_sample 16 50, square_sample 16 100,
                   square_sample 16 150, square_sample 16 200],
         lastPushed = Some (square_sample 16 200)\<rparr>
   \<and> pushTrailPolygon CFG_trail (square_at 200) (Some \<lparr>px = 200, py = 0\<rparr>) 16 (2 / 5)
        (pushTrailPolygon CFG_trail (square_at 0) (Some \<lparr>px = 0, py = 0\<rparr>) 0 1 trail_empty)
      = \<lparr>trail = [square_sample 0 0, square_sample 16 100, square_sample 16 200],
         lastPushed = Some (square_sample 16 200)\<rparr>
   \<and> pushTrailPolygon CFG_trail (square_at 200) (Some \<lparr>px = 200, py = 0\<rparr>) 16 (11 / 20)
        (pushTrailPolygon CFG_trail (square_at 0) (Some \<lparr>px = 0, py = 0\<rparr>) 0 1 trail_empty)
      = \<lparr>trail = [square_sample 0 0, square_sample 16 100, square_sample 16 200],
         lastPushed = Some (square_sample 16 200)\<rparr>"
proof (intro conjI impI)
  assume h: "lastPushed st = Some lp \<and> 3 \<le> length poly
      \<and> isValidTrailPolygon (push_prepare cfg st poly tp)
      \<and> pts = push_process cfg lp (push_prepare cfg st poly tp) tp
      \<and> isValidTrailPolygon pts
      \<and> \<not> interpMetric lp pts < moveThreshold cfg
      \<and> seg = min (max 1 (js_round (real (maxInterpPerPush cfg) * q)))
                  (max 1 \<lceil>interpMetric lp pts / adaptiveStep_of cfg q\<rceil>)
      \<and> steps = interp_steps cfg lp pts tp stampMs seg [1..<nat seg + 1] (s_pts lp)"
  then have h1: "lastPushed st = Some lp" and h2: "3 \<le> length poly"
    and h3: "isValidTrailPolygon (push_prepare cfg st poly tp)"
    and h4: "pts = push_process cfg lp (push_prepare cfg st poly tp) tp"
    and h5: "isValidTrailPolygon pts" and h6: "\<not> interpMetric lp pts < moveThreshold cfg"
    and h7: "seg = min (max 1 (js_round (real (maxInterpPerPush cfg) * q)))
                  (max 1 \<lceil>interpMetric lp pts / adaptiveStep_of cfg q\<rceil>)"
    and st: "steps = interp_steps cfg lp pts tp stampMs seg [1..<nat seg + 1] (s_pts lp)"
    by blast+
  have sd: "seg = segments_of cfg q (interpMetric lp pts)"
    unfolding h7 segments_of_def Let_def ..
  have sp: "1 \<le> seg" unfolding sd by (rule segments_pos)
  have ll: "length [1..<nat seg + 1] = nat seg" by simp
  have ls: "length steps = nat seg" unfolding st interp_steps_length ll ..
  show "pushTrailPolygon cfg poly tp stampMs q st
          = \<lparr>trail = capTrail cfg (trail st @ pushed steps),
             lastPushed = (if pushed steps = [] then Some lp else Some (last (pushed steps)))\<rparr>"
    by (rule push_passed [OF h1 h2 h3 h4 h5 h6 sd st])
  show "1 \<le> seg" by (rule sp)
  show "length steps = nat seg" by (rule ls)
  show "\<forall>k<nat seg. steps ! k =
              (let entryPts = interp_entry cfg lp pts tp seg
                     (last (s_pts lp # map s_pts (pushed (take k steps)))) (k + 1)
               in if isValidTrailPolygon entryPts
                  then Some \<lparr>s_t = stampMs, s_cx = px (polygonCenter entryPts),
                             s_cy = py (polygonCenter entryPts), s_pts = entryPts\<rparr>
                  else None)"
  proof (intro allI impI)
    fix k assume k: "k < nat seg"
    then have kl: "k < length [1..<nat seg + 1]" by simp
    have ik: "[1..<nat seg + 1] ! k = k + 1" using k by (simp add: nth_upt del: upt_Suc)
    from interp_steps_nth [OF kl, of cfg lp pts tp stampMs seg "s_pts lp"]
    show "steps ! k =
              (let entryPts = interp_entry cfg lp pts tp seg
                     (last (s_pts lp # map s_pts (pushed (take k steps)))) (k + 1)
               in if isValidTrailPolygon entryPts
                  then Some \<lparr>s_t = stampMs, s_cx = px (polygonCenter entryPts),
                             s_cy = py (polygonCenter entryPts), s_pts = entryPts\<rparr>
                  else None)"
      unfolding st [symmetric] ik .
  qed
  show "length (pushed steps) = nat seg" if "\<forall>k<nat seg. steps ! k \<noteq> None"
    using pushed_all [of steps] that unfolding ls by simp
next
  show "pushTrailPolygon CFG_trail (square_at 200) (Some \<lparr>px = 200, py = 0\<rparr>) 16 1
        (pushTrailPolygon CFG_trail (square_at 0) (Some \<lparr>px = 0, py = 0\<rparr>) 0 1 trail_empty)
      = \<lparr>trail = [square_sample 0 0, square_sample 16 50, square_sample 16 100,
                   square_sample 16 150, square_sample 16 200],
         lastPushed = Some (square_sample 16 200)\<rparr>"
    unfolding scenario_first by (rule scenario_full)
next
  show "pushTrailPolygon CFG_trail (square_at 200) (Some \<lparr>px = 200, py = 0\<rparr>) 16 (2 / 5)
        (pushTrailPolygon CFG_trail (square_at 0) (Some \<lparr>px = 0, py = 0\<rparr>) 0 1 trail_empty)
      = \<lparr>trail = [square_sample 0 0, square_sample 16 100, square_sample 16 200],
         lastPushed = Some (square_sample 16 200)\<rparr>"
    unfolding scenario_first by (rule scenario_low)
next
  show "pushTrailPolygon CFG_trail (square_at 200) (Some \<lparr>px = 200, py = 0\<rparr>) 16 (11 / 20)
        (pushTrailPolygon CFG_trail (square_at 0) (Some \<lparr>px = 0, py = 0\<rparr>) 0 1 trail_empty)
      = \<lparr>trail = [square_sample 0 0, square_sample 16 100, square_sample 16 200],
         lastPushed = Some (square_sample 16 200)\<rparr>"
    unfolding scenario_first by (rule scenario_mid)
qed

theorem push_appends_interpolated_witness:
  "lastPushed store_after_first = Some (square_sample 0 0) \<and> 3 \<le> length (square_at 200)
   \<and> isValidTrailPolygon (push_prepare CFG_trail store_after_first (square_at 200) (Some \<lparr>px = 200, py = 0\<rparr>))
   \<and> square_at 200 = push_process CFG_trail (square_sample 0 0)
        (push_prepare CFG_trail store_after_first (square_at 200) (Some \<lparr>px = 200, py = 0\<rparr>))
        (Some \<lparr>px = 200, py = 0\<rparr>)
   \<and> isValidTrailPolygon (square_at 200)
   \<and> \<not> interpMetric (square_sample 0 0) (square_at 200) < moveThreshold CFG_trail
   \<and> (2 :: int) = min (max 1 (js_round (real (maxInterpPerPush CFG_trail) * (2 / 5))))
                  (max 1 \<lceil>interpMetric (square_sample 0 0) (square_at 200) / adaptiveStep_of CFG_trail (2 / 5)\<rceil>)
   \<and> [Some (square_sample 16 100), Some (square_sample 16 200)]
       = interp_steps CFG_trail (square_sample 0 0) (square_at 200) (Some \<lparr>px = 200, py = 0\<rparr>) 16 2
           [1..<nat 2 + 1] (s_pts (square_sample 0 0))
   \<and> pushTrailPolygon CFG_trail (square_at 200) (Some \<lparr>px = 200, py = 0\<rparr>) 16 (2 / 5) store_after_first
       = \<lparr>trail = capTrail CFG_trail (trail store_after_first
                      @ pushed [Some (square_sample 16 100), Some (square_sample 16 200)]),
          lastPushed = Some (square_sample 16 200)\<rparr>
   \<and> length (pushed [Some (square_sample 16 100), Some (square_sample 16 200)]) = nat 2"
proof -
  have far: "64 \<le> \<bar>200 - 0 :: real\<bar>" by simp
  have p: "push_prepare CFG_trail store_after_first (square_at 200) (Some \<lparr>px = 200, py = 0\<rparr>)
      = square_at 200"
    unfolding store_after_first_def by (rule square_prepare_next)
  have pr: "push_process CFG_trail (square_sample 0 0) (square_at 200) (Some \<lparr>px = 200, py = 0\<rparr>)
      = square_at 200"
    using square_process_far [OF far] by simp
  have m: "interpMetric (square_sample 0 0) (square_at 200) = 200"
    by (simp add: square_metric)
  have k: "(2 :: int) = min (max 1 (js_round (real (maxInterpPerPush CFG_trail) * (2 / 5))))
             (max 1 \<lceil>200 / adaptiveStep_of CFG_trail (2 / 5)\<rceil>)"
    using CFG_segments_low by (simp add: segments_of_def Let_def)
  have sp: "s_pts (square_sample 0 0) = square_at 0" by (simp add: square_sample_def)
  have u: "[1..<nat 2 + 1] = [1, 2]" by (simp add: upt_rec)
  have s: "[Some (square_sample 16 100), Some (square_sample 16 200)]
       = interp_steps CFG_trail (square_sample 0 0) (square_at 200) (Some \<lparr>px = 200, py = 0\<rparr>) 16 2
           [1..<nat 2 + 1] (s_pts (square_sample 0 0))"
    unfolding sp u square_interp_steps by (simp add: lerp_def)
  have h: "lastPushed store_after_first = Some (square_sample 0 0) \<and> 3 \<le> length (square_at 200)
      \<and> isValidTrailPolygon (push_prepare CFG_trail store_after_first (square_at 200) (Some \<lparr>px = 200, py = 0\<rparr>))
      \<and> square_at 200 = push_process CFG_trail (square_sample 0 0)
           (push_prepare CFG_trail store_after_first (square_at 200) (Some \<lparr>px = 200, py = 0\<rparr>))
           (Some \<lparr>px = 200, py = 0\<rparr>)
      \<and> isValidTrailPolygon (square_at 200)
      \<and> \<not> interpMetric (square_sample 0 0) (square_at 200) < moveThreshold CFG_trail
      \<and> (2 :: int) = min (max 1 (js_round (real (maxInterpPerPush CFG_trail) * (2 / 5))))
                  (max 1 \<lceil>interpMetric (square_sample 0 0) (square_at 200) / adaptiveStep_of CFG_trail (2 / 5)\<rceil>)
      \<and> [Some (square_sample 16 100), Some (square_sample 16 200)]
          = interp_steps CFG_trail (square_sample 0 0) (square_at 200) (Some \<lparr>px = 200, py = 0\<rparr>) 16 2
              [1..<nat 2 + 1] (s_pts (square_sample 0 0))"
  proof -
    have h1: "lastPushed store_after_first = Some (square_sample 0 0)"
      by (simp add: store_after_first_def)
    have h2: "3 \<le> length (square_at 200)" by (simp add: square_length)
    have h3: "isValidTrailPolygon (push_prepare CFG_trail store_after_first (square_at 200)
                (Some \<lparr>px = 200, py = 0\<rparr>))"
      unfolding p by (rule square_valid)
    have h4: "square_at 200 = push_process CFG_trail (square_sample 0 0)
           (push_prepare CFG_trail store_after_first (square_at 200) (Some \<lparr>px = 200, py = 0\<rparr>))
           (Some \<lparr>px = 200, py = 0\<rparr>)"
      unfolding p pr ..
    have h5: "isValidTrailPolygon (square_at 200)" by (rule square_valid)
    have h6: "\<not> interpMetric (square_sample 0 0) (square_at 200) < moveThreshold CFG_trail"
      unfolding m by (simp add: CFG_threshold)
    have h7: "(2 :: int) = min (max 1 (js_round (real (maxInterpPerPush CFG_trail) * (2 / 5))))
                  (max 1 \<lceil>interpMetric (square_sample 0 0) (square_at 200) / adaptiveStep_of CFG_trail (2 / 5)\<rceil>)"
      unfolding m by (rule k)
    from h1 h2 h3 h4 h5 h6 h7 s show ?thesis by blast
  qed
  note t = push_appends_interpolated [where st = store_after_first and lp = "square_sample 0 0"
      and poly = "square_at 200" and cfg = CFG_trail and tp = "Some \<lparr>px = 200, py = 0\<rparr>"
      and pts = "square_at 200" and q = "2 / 5" and seg = 2 and stampMs = 16
      and steps = "[Some (square_sample 16 100), Some (square_sample 16 200)]"]
  from t h have c: "pushTrailPolygon CFG_trail (square_at 200) (Some \<lparr>px = 200, py = 0\<rparr>) 16 (2 / 5)
        store_after_first
       = \<lparr>trail = capTrail CFG_trail (trail store_after_first
                      @ pushed [Some (square_sample 16 100), Some (square_sample 16 200)]),
          lastPushed = (if pushed [Some (square_sample 16 100), Some (square_sample 16 200)] = []
                        then Some (square_sample 0 0)
                        else Some (last (pushed [Some (square_sample 16 100), Some (square_sample 16 200)])))\<rparr>"
    and d: "(\<forall>k<nat 2. [Some (square_sample 16 100), Some (square_sample 16 200)] ! k \<noteq> None)
       \<longrightarrow> length (pushed [Some (square_sample 16 100), Some (square_sample 16 200)]) = nat 2"
    by blast+
  have a: "\<forall>k<nat 2. [Some (square_sample 16 100), Some (square_sample 16 200)] ! k \<noteq> None"
    by (simp add: less_Suc_eq nat_numeral eval_nat_numeral)
  from d a have e: "length (pushed [Some (square_sample 16 100), Some (square_sample 16 200)]) = nat 2"
    by blast
  have lp: "(if pushed [Some (square_sample 16 100), Some (square_sample 16 200)] = []
             then Some (square_sample 0 0)
             else Some (last (pushed [Some (square_sample 16 100), Some (square_sample 16 200)])))
      = Some (square_sample 16 200)"
    by (simp add: pushed_simps)
  from h c [unfolded lp] e show ?thesis by blast
qed

text \<open>
  Claim C10. A rejected push changes nothing: when the input has fewer than 3 points,
  when the polygon fails the validity check after the first canonicalization and
  correction or after the processing against the previous sample, or when the movement
  metric is below the minimum-motion threshold, the store (trail buffer and last pushed
  sample) is returned as it was.
\<close>

theorem pushTrailPolygon_rejects_atomically:
  "(length poly < 3 \<longrightarrow> pushTrailPolygon cfg poly tp stampMs q st = st)
   \<and> (\<not> isValidTrailPolygon (push_prepare cfg st poly tp)
        \<longrightarrow> pushTrailPolygon cfg poly tp stampMs q st = st)
   \<and> (lastPushed st = Some lp
        \<and> \<not> isValidTrailPolygon (push_process cfg lp (push_prepare cfg st poly tp) tp)
        \<longrightarrow> pushTrailPolygon cfg poly tp stampMs q st = st)
   \<and> (lastPushed st = Some lp
        \<and> interpMetric lp (push_process cfg lp (push_prepare cfg st poly tp) tp) < moveThreshold cfg
        \<longrightarrow> pushTrailPolygon cfg poly tp stampMs q st = st)"
  by (simp add: pushTrailPolygon_def Let_def)

lemma point_polygon_invalid: "\<not> isValidTrailPolygon point_polygon"
  by (simp add: isValidTrailPolygon_def isSelfIntersectingPolygon_def point_polygon_def upt_rec
      segmentsIntersect_def orient2_def onSegment_def Let_def)

lemma point_polygon_prepare:
  "push_prepare CFG_trail trail_empty point_polygon None = point_polygon"
proof -
  have c: "polygonCenter point_polygon = \<lparr>px = 0, py = 0\<rparr>"
    by (simp add: polygonCenter_def point_polygon_def)
  have l: "3 \<le> length point_polygon" by (simp add: point_polygon_def)
  have "sorted (map (angle_key \<lparr>px = 0, py = 0\<rparr>) point_polygon)"
    by (simp add: point_polygon_def)
  then have s: "sortPolygonByAngle point_polygon = point_polygon"
    unfolding sortPolygonByAngle_sort [OF l] c by (rule sort_key_id_if_sorted)
  have r: "rotateToTopLeftStart point_polygon = point_polygon"
    by (simp add: rotateToTopLeftStart_def point_polygon_def Let_def clonePolygon_id
        rotatePolygon_def upt_rec)
  have k: "canonicalizePolygon point_polygon None = point_polygon"
    using l by (simp add: canonicalizePolygon_def Let_def s r)
  show ?thesis
    by (simp add: push_prepare_def Let_def CFG_trail_def trail_empty_def clonePolygon_id k)
qed

lemma plain_prepare:
  "push_prepare CFG_trail_plain store_after_first square_from_bottom_right None
     = square_from_bottom_right"
  by (simp add: push_prepare_def Let_def CFG_trail_plain_def clonePolygon_id)

lemma square_from_bottom_right_valid: "isValidTrailPolygon square_from_bottom_right"
  by (simp add: isValidTrailPolygon_def isSelfIntersectingPolygon_def square_from_bottom_right_def
      upt_rec segmentsIntersect_def orient2_def onSegment_def Let_def)

lemma plain_process:
  "push_process CFG_trail_plain (square_sample 0 0) square_from_bottom_right None = point_polygon"
proof -
  have c: "polygonCenter square_from_bottom_right = \<lparr>px = 0, py = 0\<rparr>"
    by (simp add: polygonCenter_def square_from_bottom_right_def)
  have l: "lerpPolygon square_from_bottom_right (square_at 0) (1 / 2) = point_polygon"
    by (simp add: lerpPolygon_def square_from_bottom_right_def square_at_def lerpPoint_def
        lerp_def point_polygon_def)
  have n: "length (square_at 0) = length square_from_bottom_right"
    by (simp add: square_at_def square_from_bottom_right_def)
  show ?thesis
    unfolding push_process_def Let_def
    by (simp add: CFG_trail_plain_def CFG_trail_def square_sample_def c hypot_def clamp_def
        js_or_def n l)
qed

theorem pushTrailPolygon_rejects_atomically_witness:
  "length ([] :: polygon) < 3
   \<and> pushTrailPolygon CFG_trail [] None 16 1 store_after_first = store_after_first
   \<and> \<not> isValidTrailPolygon (push_prepare CFG_trail trail_empty point_polygon None)
   \<and> pushTrailPolygon CFG_trail point_polygon None 16 1 trail_empty = trail_empty
   \<and> lastPushed store_after_first = Some (square_sample 0 0)
   \<and> isValidTrailPolygon (push_prepare CFG_trail_plain store_after_first square_from_bottom_right None)
   \<and> \<not> isValidTrailPolygon (push_process CFG_trail_plain (square_sample 0 0)
          (push_prepare CFG_trail_plain store_after_first square_from_bottom_right None) None)
   \<and> pushTrailPolygon CFG_trail_plain square_from_bottom_right None 16 1 store_after_first
       = store_after_first
   \<and> interpMetric (square_sample 0 0) (push_process CFG_trail (square_sample 0 0)
          (push_prepare CFG_trail store_after_first (square_at 0) None) None)
       < moveThreshold CFG_trail
   \<and> pushTrailPolygon CFG_trail (square_at 0) None 16 1 store_after_first = store_after_first"
proof -
  have p: "push_prepare CFG_trail store_after_first (square_at 0) None = square_at 0"
    unfolding store_after_first_def by (rule square_prepare_next)
  have lp: "lastPushed store_after_first = Some (square_sample 0 0)"
    by (simp add: store_after_first_def)
  have m: "interpMetric (square_sample 0 0) (push_process CFG_trail (square_sample 0 0)
          (push_prepare CFG_trail store_after_first (square_at 0) None) None)
       < moveThreshold CFG_trail"
    unfolding p by (simp add: square_process_same square_metric CFG_threshold)
  have i: "\<not> isValidTrailPolygon (push_process CFG_trail_plain (square_sample 0 0)
          (push_prepare CFG_trail_plain store_after_first square_from_bottom_right None) None)"
    unfolding plain_prepare plain_process by (rule point_polygon_invalid)
  have j: "\<not> isValidTrailPolygon (push_prepare CFG_trail trail_empty point_polygon None)"
    unfolding point_polygon_prepare by (rule point_polygon_invalid)
  from pushTrailPolygon_rejects_atomically [of "[]" CFG_trail None 16 1 store_after_first "square_sample 0 0"]
    pushTrailPolygon_rejects_atomically [of point_polygon CFG_trail None 16 1 trail_empty "square_sample 0 0"]
    pushTrailPolygon_rejects_atomically [of square_from_bottom_right CFG_trail_plain None 16 1
      store_after_first "square_sample 0 0"]
    pushTrailPolygon_rejects_atomically [of "square_at 0" CFG_trail None 16 1 store_after_first
      "square_sample 0 0"]
    lp m i j square_from_bottom_right_valid
  show ?thesis by (simp add: plain_prepare)
qed

subsection \<open>Corner springs with a stationary target\<close>

lemma decay_factor:
  fixes s :: real
  assumes "0 < s"
  shows "0 < exp (- s)" "exp (- s) < 1" "(1 + s) * exp (- s) < 1" "exp (- s) \<le> (1 + s) * exp (- s)"
proof -
  show "0 < exp (- s)" by simp
  show "exp (- s) < 1" using assms by simp
  have "1 + s + s\<^sup>2 / 2 \<le> exp s" using assms by (intro exp_lower_Taylor_quadratic) simp
  moreover have "0 < s\<^sup>2 / 2" using assms by simp
  ultimately have "1 + s < exp s" by linarith
  then have "(1 + s) * exp (- s) < exp s * exp (- s)" by (intro mult_strict_right_mono) simp_all
  then show "(1 + s) * exp (- s) < 1" by (simp add: exp_minus)
  have "1 * exp (- s) \<le> (1 + s) * exp (- s)" using assms by (intro mult_right_mono) simp_all
  then show "exp (- s) \<le> (1 + s) * exp (- s)" by simp
qed

text \<open>One flow step of one axis followed by the stretch clamp, on offset and velocity.\<close>

lemma flow_clamp_contracts:
  fixes x v dt w M c :: real
  assumes dt: "0 < dt" and w: "0 < w" and M: "\<bar>x\<bar> \<le> M"
    and c: "c = exp (- (w * dt))"
  defines "y \<equiv> x * w + v"
  defines "x' \<equiv> (x + y * dt) * c"
  defines "v' \<equiv> c * (- x * w - y * dt * w + y)"
  defines "x'' \<equiv> clamp x' (- M) M"
  shows "\<bar>x''\<bar> \<le> c * \<bar>x\<bar> + dt * \<bar>y\<bar>"
    and "\<bar>x'' * w + v'\<bar> \<le> (1 + w * dt) * c * \<bar>y\<bar>"
    and "\<bar>x''\<bar> \<le> M"
proof -
  have s: "0 < w * dt" using dt w by simp
  have c0: "0 < c" and c1: "c < 1" using decay_factor [OF s] c by simp_all
  have M0: "0 \<le> M" using M by linarith
  have v': "v' = c * y - w * x'" by (simp add: v'_def x'_def algebra_simps)
  have ax': "\<bar>x'\<bar> \<le> c * \<bar>x\<bar> + dt * \<bar>y\<bar>"
  proof -
    have "\<bar>x'\<bar> = c * \<bar>x + y * dt\<bar>" using c0 by (simp add: x'_def abs_mult)
    also have "\<dots> \<le> c * (\<bar>x\<bar> + \<bar>y\<bar> * dt)"
      using c0 dt by (intro mult_left_mono) (simp_all add: abs_mult abs_triangle_ineq [THEN order_trans])
    also have "\<dots> = c * \<bar>x\<bar> + c * (dt * \<bar>y\<bar>)" by (simp add: algebra_simps)
    also have "\<dots> \<le> c * \<bar>x\<bar> + 1 * (dt * \<bar>y\<bar>)"
      using c1 dt by (intro add_left_mono mult_right_mono) simp_all
    finally show ?thesis by simp
  qed
  have cl: "\<bar>x''\<bar> \<le> \<bar>x'\<bar>" using M0 by (auto simp add: x''_def clamp_def min_def max_def)
  show "\<bar>x''\<bar> \<le> c * \<bar>x\<bar> + dt * \<bar>y\<bar>" using cl ax' by linarith
  show "\<bar>x''\<bar> \<le> M" using M0 by (auto simp add: x''_def clamp_def min_def max_def)
  have cxM: "c * x \<le> M" and cxM': "- M \<le> c * x"
  proof -
    have "\<bar>c * x\<bar> = c * \<bar>x\<bar>" using c0 by (simp add: abs_mult)
    also have "\<dots> \<le> 1 * \<bar>x\<bar>" using c1 by (intro mult_right_mono) simp_all
    finally have "\<bar>c * x\<bar> \<le> M" using M by simp
    then show "c * x \<le> M" "- M \<le> c * x" by linarith+
  qed
  have xe: "x' = c * x + c * y * dt" by (simp add: x'_def algebra_simps)
  have q: "(1 + w * dt) * c * \<bar>y\<bar> = c * \<bar>y\<bar> + w * (c * \<bar>y\<bar> * dt)" by (simp add: algebra_simps)
  have cy: "0 \<le> c * \<bar>y\<bar>" using c0 by simp
  have wd: "0 \<le> w * (c * \<bar>y\<bar> * dt)" using w dt c0 by simp
  consider (lo) "x' < - M" | (mid) "- M \<le> x'" "x' \<le> M" | (hi) "M < x'" by linarith
  then show "\<bar>x'' * w + v'\<bar> \<le> (1 + w * dt) * c * \<bar>y\<bar>"
  proof cases
    case mid
    then have "x'' = x'" by (simp add: x''_def clamp_def)
    then have "x'' * w + v' = c * y" by (simp add: v')
    then have "\<bar>x'' * w + v'\<bar> = c * \<bar>y\<bar>" using c0 by (simp add: abs_mult)
    then show ?thesis using wd unfolding q by linarith
  next
    case hi
    then have x'': "x'' = M" using M0 by (simp add: x''_def clamp_def)
    have d0: "0 < x' - M" using hi by simp
    have d1: "x' - M \<le> c * y * dt" using cxM xe by linarith
    have "0 < c * y * dt" using d0 d1 by linarith
    then have y0: "0 < y" using c0 dt by (simp add: zero_less_mult_iff)
    have e: "x'' * w + v' = c * y - w * (x' - M)" by (simp add: x'' v' algebra_simps)
    have u: "x'' * w + v' \<le> c * y" unfolding e using w d0 by simp
    have "w * (x' - M) \<le> w * (c * y * dt)" using w d1 by (intro mult_left_mono) simp_all
    then have l: "c * y - w * (c * y * dt) \<le> x'' * w + v'" unfolding e by linarith
    have "\<bar>y\<bar> = y" using y0 by simp
    then show ?thesis unfolding q using u l cy wd by (simp add: abs_le_iff) 
  next
    case lo
    then have x'': "x'' = - M" using M0 by (simp add: x''_def clamp_def)
    have d0: "x' + M < 0" using lo by simp
    have d1: "c * y * dt \<le> x' + M" using cxM' xe by linarith
    have "c * y * dt < 0" using d0 d1 by linarith
    then have y0: "y < 0" using c0 dt by (simp add: mult_less_0_iff zero_less_mult_iff)
    have e: "x'' * w + v' = c * y - w * (x' + M)" by (simp add: x'' v' algebra_simps)
    have "0 < w * (- (x' + M))" using w d0 by simp
    then have l: "c * y \<le> x'' * w + v'" unfolding e by (simp add: algebra_simps)
    have "w * (c * y * dt) \<le> w * (x' + M)" using w d1 by (intro mult_left_mono) simp_all
    then have u: "x'' * w + v' \<le> c * y - w * (c * y * dt)" unfolding e by linarith
    have ay: "\<bar>y\<bar> = - y" using y0 by simp
    have A: "c * y < 0" using c0 y0 by (simp add: mult_less_0_iff)
    have B: "w * (c * y * dt) < 0" using w dt A by (simp add: mult_less_0_iff zero_less_mult_iff)
    have g: "(1 + w * dt) * c * \<bar>y\<bar> = - (c * y) - w * (c * y * dt)"
      unfolding ay by (simp add: algebra_simps)
    show ?thesis unfolding g using u l A B by linarith
  qed
qed

lemma axis_tick_energy:
  assumes dt: "0 < dt" and tc: "dt < tc" and M: "\<bar>fst xv\<bar> \<le> M"
  shows "axis_energy dt tc (axis_tick dt tc M xv) \<le> axis_rate dt tc * axis_energy dt tc xv"
    and "\<bar>fst (axis_tick dt tc M xv)\<bar> \<le> M"
proof -
  define w where "w = 4 / tc"
  define q where "q = axis_q dt tc"
  define K where "K = 2 * dt / (1 - q)"
  define x where "x = fst xv"
  define v where "v = snd xv"
  have w0: "0 < w" using dt tc by (simp add: w_def)
  have s: "0 < w * dt" using w0 dt by simp
  have qd: "q = (1 + w * dt) * exp (- (w * dt))" by (simp add: q_def axis_q_def w_def)
  have q1: "q < 1" and cq: "exp (- (w * dt)) \<le> q" using decay_factor [OF s] by (simp_all add: qd)
  have q0: "0 < q" unfolding qd using s by (intro mult_pos_pos) simp_all
  have K0: "0 < K" using dt q1 by (simp add: K_def)
  have M0: "0 \<le> M" using M by linarith
  have E: "axis_energy dt tc (a, b) = \<bar>a\<bar> + K * \<bar>a * w + b\<bar>" for a b
    by (simp add: axis_energy_def K_def q_def w_def)
  have E0: "0 \<le> axis_energy dt tc xv"
    using K0 E [of x v] by (simp add: x_def v_def)
  have r0: "0 \<le> axis_rate dt tc" using q0 by (simp add: axis_rate_def q_def)
  show "axis_energy dt tc (axis_tick dt tc M xv) \<le> axis_rate dt tc * axis_energy dt tc xv"
    "\<bar>fst (axis_tick dt tc M xv)\<bar> \<le> M"
  proof (atomize (full), cases "\<bar>x\<bar> < 1 / 1000")
    case True
    then have "axis_tick dt tc M xv = (0, 0)"
      using M0 by (simp add: axis_tick_def CritDamped1D_step_def reset_def clamp_def x_def)
    then show "axis_energy dt tc (axis_tick dt tc M xv) \<le> axis_rate dt tc * axis_energy dt tc xv
        \<and> \<bar>fst (axis_tick dt tc M xv)\<bar> \<le> M"
      using E0 r0 M0 by (simp add: E)
  next
    case False
    define y where "y = x * w + v"
    define c where "c = exp (- (w * dt))"
    define x'' where "x'' = clamp ((x + y * dt) * c) (- M) M"
    define v' where "v' = c * (- x * w - y * dt * w + y)"
    have t: "axis_tick dt tc M xv = (x'', v')"
      using False tc
      by (simp add: axis_tick_def CritDamped1D_step_def Let_def x_def v_def x''_def v'_def
          y_def c_def w_def)
    have Mx: "\<bar>x\<bar> \<le> M" using M by (simp add: x_def)
    from flow_clamp_contracts [OF dt w0 Mx, of c v] 
    have a: "\<bar>x''\<bar> \<le> c * \<bar>x\<bar> + dt * \<bar>y\<bar>"
      and b: "\<bar>x'' * w + v'\<bar> \<le> q * \<bar>y\<bar>"
      and d: "\<bar>x''\<bar> \<le> M"
      by (simp_all add: c_def x''_def v'_def y_def qd)
    have cqx: "c * \<bar>x\<bar> \<le> q * \<bar>x\<bar>" using cq by (intro mult_right_mono) (simp_all add: c_def)
    have Kb: "K * \<bar>x'' * w + v'\<bar> \<le> K * (q * \<bar>y\<bar>)" using b K0 by (intro mult_left_mono) simp_all
    have id: "dt + K * q = (1 + q) / 2 * K" using q1 by (simp add: K_def field_simps)
    have "axis_energy dt tc (x'', v') = \<bar>x''\<bar> + K * \<bar>x'' * w + v'\<bar>" by (rule E)
    also have "\<dots> \<le> q * \<bar>x\<bar> + dt * \<bar>y\<bar> + K * (q * \<bar>y\<bar>)" using a cqx Kb by linarith
    also have "\<dots> = q * \<bar>x\<bar> + (dt + K * q) * \<bar>y\<bar>" by (simp add: algebra_simps)
    also have "\<dots> = q * \<bar>x\<bar> + (1 + q) / 2 * (K * \<bar>y\<bar>)" by (simp add: id)
    also have "\<dots> \<le> (1 + q) / 2 * \<bar>x\<bar> + (1 + q) / 2 * (K * \<bar>y\<bar>)"
      using q1 by (intro add_right_mono mult_right_mono) simp_all
    also have "\<dots> = axis_rate dt tc * axis_energy dt tc (x, v)"
      by (simp add: axis_rate_def q_def [symmetric] E y_def algebra_simps)
    finally show "axis_energy dt tc (axis_tick dt tc M xv) \<le> axis_rate dt tc * axis_energy dt tc xv
        \<and> \<bar>fst (axis_tick dt tc M xv)\<bar> \<le> M"
      using d by (simp add: t x_def v_def)
  qed
qed

lemma axis_tick_rest:
  assumes "0 \<le> M"
  shows "axis_tick dt tc M (0, v) = (0, 0)"
  using assms by (simp add: axis_tick_def CritDamped1D_step_def reset_def clamp_def)

lemma axis_tick_snap:
  assumes "0 \<le> M" and "tc \<le> dt \<or> \<bar>fst xv\<bar> < 1 / 1000"
  shows "axis_tick dt tc M xv = (0, 0)"
  using assms by (auto simp add: axis_tick_def CritDamped1D_step_def reset_def clamp_def)

lemma axis_tick_bounded:
  assumes "0 \<le> M"
  shows "\<bar>fst (axis_tick dt tc M xv)\<bar> \<le> M"
  using assms by (auto simp add: axis_tick_def Let_def clamp_def min_def max_def)

lemma axis_rest_forever:
  assumes "0 \<le> M"
  shows "(axis_tick dt tc M ^^ n) (0, 0) = (0, 0)"
  by (induction n) (simp_all add: axis_tick_rest [OF assms])

lemma axis_energy_iter:
  assumes dt: "0 < dt" and tc: "dt < tc" and M: "\<bar>fst xv\<bar> \<le> M"
  shows "axis_energy dt tc ((axis_tick dt tc M ^^ n) xv) \<le> axis_rate dt tc ^ n * axis_energy dt tc xv
     \<and> \<bar>fst ((axis_tick dt tc M ^^ n) xv)\<bar> \<le> M"
proof (induction n)
  case 0
  then show ?case using M by simp
next
  case (Suc n)
  let ?z = "(axis_tick dt tc M ^^ n) xv"
  from Suc have e: "axis_energy dt tc ?z \<le> axis_rate dt tc ^ n * axis_energy dt tc xv"
    and b: "\<bar>fst ?z\<bar> \<le> M" by simp_all
  have r0: "0 \<le> axis_rate dt tc"
  proof -
    have "0 < 4 / tc * dt" using dt tc by simp
    then have "0 < (1 + 4 / tc * dt) * exp (- (4 / tc * dt))" by (intro mult_pos_pos) simp_all
    then show ?thesis by (simp add: axis_rate_def axis_q_def)
  qed
  from axis_tick_energy [OF dt tc b]
  have b': "\<bar>fst (axis_tick dt tc M ?z)\<bar> \<le> M" by simp
  from axis_tick_energy [OF dt tc b]
  have "axis_energy dt tc (axis_tick dt tc M ?z) \<le> axis_rate dt tc * axis_energy dt tc ?z"
    by simp
  also have "axis_rate dt tc * axis_energy dt tc ?z
      \<le> axis_rate dt tc * (axis_rate dt tc ^ n * axis_energy dt tc xv)"
    using e r0 by (intro mult_left_mono) simp_all
  finally show ?case using b' by (simp add: algebra_simps)
qed

lemma axis_settles:
  assumes dt: "0 < dt" and M: "0 \<le> M"
  shows "\<exists>N. \<forall>n\<ge>N. (axis_tick dt tc M ^^ n) xv = (0, 0)"
proof -
  have fin: "\<exists>N. \<forall>n\<ge>N. (axis_tick dt tc M ^^ n) xv = (0, 0)"
    if z: "(axis_tick dt tc M ^^ k) xv = (0, 0)" for k
  proof (intro exI [of _ k] allI impI)
    fix n assume "k \<le> n"
    then obtain j where n: "n = j + k" by (metis le_add_diff_inverse2)
    show "(axis_tick dt tc M ^^ n) xv = (0, 0)"
      unfolding n funpow_add o_apply z by (rule axis_rest_forever [OF M])
  qed
  show ?thesis
  proof (cases "tc \<le> dt")
    case True
    have "(axis_tick dt tc M ^^ 1) xv = (0, 0)"
      using axis_tick_snap [OF M, of tc dt xv] True by simp
    then show ?thesis by (rule fin)
  next
    case False
    then have tc: "dt < tc" by simp
    define z where "z = axis_tick dt tc M xv"
    have zb: "\<bar>fst z\<bar> \<le> M" unfolding z_def by (rule axis_tick_bounded [OF M])
    define E where "E = axis_energy dt tc z"
    define r where "r = axis_rate dt tc"
    have s: "0 < 4 / tc * dt" using dt tc by simp
    have q1: "axis_q dt tc < 1" and q0: "0 < axis_q dt tc"
      using decay_factor [OF s] s by (simp_all add: axis_q_def zero_less_mult_iff)
    have r1: "r < 1" and r0: "0 \<le> r" using q1 q0 by (simp_all add: r_def axis_rate_def)
    have E0: "0 \<le> E"
      using q1 dt by (simp add: E_def axis_energy_def)
    have "0 < (1 / 1000) / (E + 1)" using E0 by simp
    from real_arch_pow_inv [OF this r1] obtain k where k: "r ^ k < (1 / 1000) / (E + 1)" by blast
    have "r ^ k * E \<le> r ^ k * (E + 1)" using r0 by (intro mult_left_mono) simp_all
    also have "\<dots> < (1 / 1000) / (E + 1) * (E + 1)"
      using k E0 by (intro mult_strict_right_mono) simp_all
    also have "\<dots> = 1 / 1000" using E0 by simp
    finally have sm: "r ^ k * E < 1 / 1000" .
    let ?u = "(axis_tick dt tc M ^^ k) z"
    from axis_energy_iter [OF dt tc zb, of k]
    have "axis_energy dt tc ?u \<le> r ^ k * E" by (simp add: r_def E_def)
    moreover have "\<bar>fst ?u\<bar> \<le> axis_energy dt tc ?u"
      using q1 dt by (simp add: axis_energy_def)
    ultimately have "\<bar>fst ?u\<bar> < 1 / 1000" using sm by linarith
    then have "axis_tick dt tc M ?u = (0, 0)" using axis_tick_snap [OF M, of tc dt ?u] by simp
    moreover have "(axis_tick dt tc M ^^ (Suc (k + 1))) xv = axis_tick dt tc M ?u"
      by (simp add: z_def funpow_swap1)
    ultimately have "(axis_tick dt tc M ^^ (Suc (k + 1))) xv = (0, 0)" by simp
    then show ?thesis by (rule fin)
  qed
qed

lemma clamp_shift: "clamp (d + p) (d - M) (d + M) - d = clamp p (- M) M"
  by (auto simp add: clamp_def min_def max_def)

lemma spring_record: "(s :: CritDamped1D)\<lparr>pos := a\<rparr>\<lparr>tau := tc\<rparr> = \<lparr>pos = a, vel = vel s, tau = tc\<rparr>"
  by (cases s) simp

lemma Corner_update_observed:
  fixes X Y w h dt rf :: real and anim :: animation_cfg and dyn :: dynamics_cfg and snap :: snap_state
  assumes obs: "\<not> pdx c < - 10000"
  defines "dest \<equiv> getDest c X Y w h"
  defines "M \<equiv> maxTrailDistanceFactor dyn * max w h"
  defines "tc \<equiv> corner_tau anim dyn rf snap"
  defines "r \<equiv> Corner_update anim dyn dt X Y w h rf snap c"
  defines "stx \<equiv> CritDamped1D_step dt \<lparr>pos = cx c - px dest, vel = vel (sx c), tau = tc\<rparr>"
  defines "sty \<equiv> CritDamped1D_step dt \<lparr>pos = cy c - py dest, vel = vel (sy c), tau = tc\<rparr>"
  shows "(cx (fst r) - px dest, vel (sx (fst r))) = axis_tick dt tc M (cx c - px dest, vel (sx c))"
    and "(cy (fst r) - py dest, vel (sy (fst r))) = axis_tick dt tc M (cy c - py dest, vel (sy c))"
    and "pdx (fst r) = px dest" and "pdy (fst r) = py dest" and "rel (fst r) = rel c"
    and "pos (sx (fst r)) = pos (fst stx)" and "pos (sy (fst r)) = pos (fst sty)"
    and "snd r = (snd stx \<or> snd sty)"
proof -
  have r: "r = (c\<lparr>sx := fst stx, sy := fst sty,
                 cx := clamp (px dest + pos (fst stx)) (px dest - M) (px dest + M),
                 cy := clamp (py dest + pos (fst sty)) (py dest - M) (py dest + M),
                 pdx := px dest, pdy := py dest\<rparr>, snd stx \<or> snd sty)"
    using obs unfolding r_def Corner_update_def
    by (simp add: Let_def split_beta setTimeConstant_def spring_record dest_def [symmetric]
        M_def [symmetric] tc_def [symmetric] stx_def [symmetric] sty_def [symmetric])
  show "(cx (fst r) - px dest, vel (sx (fst r))) = axis_tick dt tc M (cx c - px dest, vel (sx c))"
    by (simp add: r axis_tick_def Let_def clamp_shift stx_def)
  show "(cy (fst r) - py dest, vel (sy (fst r))) = axis_tick dt tc M (cy c - py dest, vel (sy c))"
    by (simp add: r axis_tick_def Let_def clamp_shift sty_def)
  show "pdx (fst r) = px dest" "pdy (fst r) = py dest" "rel (fst r) = rel c"
    "pos (sx (fst r)) = pos (fst stx)" "pos (sy (fst r)) = pos (fst sty)"
    "snd r = (snd stx \<or> snd sty)"
    by (simp_all add: r)
qed

lemma getDest_rel: "rel c' = rel c \<Longrightarrow> getDest c' X Y w h = getDest c X Y w h"
  by (simp add: getDest_def)

lemma Corner_update_rel: "rel (fst (Corner_update anim dyn dt X Y w h rf snap c)) = rel c"
proof (cases "pdx c < - 10000")
  case True
  then show ?thesis by (simp add: Corner_update_def Let_def)
next
  case False
  then show ?thesis by (rule Corner_update_observed(5))
qed

lemma corner_rest_step:
  assumes M: "0 \<le> maxTrailDistanceFactor dyn * max w h"
    and rest: "corner_rest X Y w h c"
  shows "\<not> snd (Corner_update anim dyn dt X Y w h rf snap c)
     \<and> pos (sx (fst (Corner_update anim dyn dt X Y w h rf snap c))) = 0
     \<and> pos (sy (fst (Corner_update anim dyn dt X Y w h rf snap c))) = 0
     \<and> corner_rest X Y w h (fst (Corner_update anim dyn dt X Y w h rf snap c))"
proof (cases "pdx c < - 10000")
  case True
  then show ?thesis
    by (simp add: Corner_update_def Let_def reset_def corner_rest_def getDest_def)
next
  case False
  let ?r = "Corner_update anim dyn dt X Y w h rf snap c"
  let ?dest = "getDest c X Y w h"
  let ?tc = "corner_tau anim dyn rf snap"
  let ?M = "maxTrailDistanceFactor dyn * max w h"
  from rest False have at: "cx c = px ?dest" "cy c = py ?dest" by (simp_all add: corner_rest_def)
  have st: "CritDamped1D_step dt \<lparr>pos = 0, vel = v, tau = ?tc\<rparr> = (\<lparr>pos = 0, vel = 0, tau = ?tc\<rparr>, False)" for v
    by (simp add: CritDamped1D_step_def reset_def)
  from Corner_update_observed(1) [OF False, of anim dyn dt X Y w h rf snap]
  have x: "cx (fst ?r) - px ?dest = 0" by (simp add: at axis_tick_rest [OF M])
  from Corner_update_observed(2) [OF False, of anim dyn dt X Y w h rf snap]
  have y: "cy (fst ?r) - py ?dest = 0" by (simp add: at axis_tick_rest [OF M])
  have d: "getDest (fst ?r) X Y w h = ?dest" by (rule getDest_rel) (rule Corner_update_rel)
  have "corner_rest X Y w h (fst ?r)" using x y by (simp add: corner_rest_def d)
  moreover have "pos (sx (fst ?r)) = 0" "pos (sy (fst ?r)) = 0" "\<not> snd ?r"
    using Corner_update_observed(6,7,8) [OF False, of anim dyn dt X Y w h rf snap]
    by (simp_all add: at st)
  ultimately show ?thesis by simp
qed

lemma corner_rest_stays:
  assumes M: "0 \<le> maxTrailDistanceFactor dyn * max w h"
    and rest: "corner_rest X Y w h (((\<lambda>c. fst (Corner_update anim dyn dt X Y w h rf snap c)) ^^ k) c)"
    and kn: "k \<le> n"
  shows "corner_rest X Y w h (((\<lambda>c. fst (Corner_update anim dyn dt X Y w h rf snap c)) ^^ n) c)"
  using kn
proof (induction n)
  case 0
  then show ?case using rest by simp
next
  case (Suc n)
  show ?case
  proof (cases "k = Suc n")
    case True
    then show ?thesis using rest by simp
  next
    case False
    then have "k \<le> n" using Suc.prems by simp
    from corner_rest_step [OF M Suc.IH [OF this]] show ?thesis by simp
  qed
qed

lemma corner_axis_iter:
  fixes X Y w h dt rf :: real and anim :: animation_cfg and dyn :: dynamics_cfg and snap :: snap_state
  assumes obs: "\<not> pdx c < - 10000" and far: "\<not> px (getDest c X Y w h) < - 10000"
  defines "T \<equiv> \<lambda>c. fst (Corner_update anim dyn dt X Y w h rf snap c)"
  defines "dest \<equiv> getDest c X Y w h"
  defines "tc \<equiv> corner_tau anim dyn rf snap"
  defines "M \<equiv> maxTrailDistanceFactor dyn * max w h"
  shows "\<not> pdx ((T ^^ n) c) < - 10000 \<and> rel ((T ^^ n) c) = rel c
          \<and> (cx ((T ^^ n) c) - px dest, vel (sx ((T ^^ n) c)))
              = (axis_tick dt tc M ^^ n) (cx c - px dest, vel (sx c))
          \<and> (cy ((T ^^ n) c) - py dest, vel (sy ((T ^^ n) c)))
              = (axis_tick dt tc M ^^ n) (cy c - py dest, vel (sy c))"
proof (induction n)
  case 0
  then show ?case using obs by simp
next
  case (Suc n)
  let ?u = "(T ^^ n) c"
  from Suc have o: "\<not> pdx ?u < - 10000" and r: "rel ?u = rel c"
    and x: "(cx ?u - px dest, vel (sx ?u)) = (axis_tick dt tc M ^^ n) (cx c - px dest, vel (sx c))"
    and y: "(cy ?u - py dest, vel (sy ?u)) = (axis_tick dt tc M ^^ n) (cy c - py dest, vel (sy c))"
    by simp_all
  have d: "getDest ?u X Y w h = dest" unfolding dest_def using r by (rule getDest_rel)
  from Corner_update_observed [OF o, of anim dyn dt X Y w h rf snap, unfolded d]
  show ?case using far r x y by (simp add: T_def dest_def tc_def M_def)
qed

lemma corner_eventually_rest:
  assumes dt: "0 < dt" and M: "0 \<le> maxTrailDistanceFactor dyn * max w h"
  shows "\<exists>N. \<forall>n\<ge>N. corner_rest X Y w h
           (((\<lambda>c. fst (Corner_update anim dyn dt X Y w h rf snap c)) ^^ n) c)"
proof -
  let ?T = "\<lambda>c. fst (Corner_update anim dyn dt X Y w h rf snap c)"
  let ?dest = "getDest c X Y w h"
  let ?tc = "corner_tau anim dyn rf snap"
  let ?M = "maxTrailDistanceFactor dyn * max w h"
  have fin: "\<exists>N. \<forall>n\<ge>N. corner_rest X Y w h ((?T ^^ n) c)" if "corner_rest X Y w h ((?T ^^ k) c)" for k
    using corner_rest_stays [OF M that] by blast
  show ?thesis
  proof (cases "pdx c < - 10000")
    case True
    then have "corner_rest X Y w h ((?T ^^ 0) c)" by (simp add: corner_rest_def)
    then show ?thesis by (rule fin)
  next
    case obs: False
    show ?thesis
    proof (cases "px ?dest < - 10000")
      case True
      have "pdx (?T c) = px ?dest" by (rule Corner_update_observed(3) [OF obs])
      then have "corner_rest X Y w h ((?T ^^ 1) c)" using True by (simp add: corner_rest_def)
      then show ?thesis by (rule fin)
    next
      case False
      note inv = corner_axis_iter [OF obs False, where anim = anim and dyn = dyn and dt = dt
          and rf = rf and snap = snap]
      from axis_settles [OF dt M, of ?tc "(cx c - px ?dest, vel (sx c))"]
      obtain Nx where Nx: "\<forall>n\<ge>Nx. (axis_tick dt ?tc ?M ^^ n) (cx c - px ?dest, vel (sx c)) = (0, 0)"
        by blast
      from axis_settles [OF dt M, of ?tc "(cy c - py ?dest, vel (sy c))"]
      obtain Ny where Ny: "\<forall>n\<ge>Ny. (axis_tick dt ?tc ?M ^^ n) (cy c - py ?dest, vel (sy c)) = (0, 0)"
        by blast
      let ?N = "max Nx Ny"
      have "cx ((?T ^^ ?N) c) - px ?dest = 0" "cy ((?T ^^ ?N) c) - py ?dest = 0"
        using inv [of ?N] Nx Ny by (simp_all add: prod_eq_iff)
      moreover have "getDest ((?T ^^ ?N) c) X Y w h = ?dest"
        using inv [of ?N] by (intro getDest_rel) simp
      ultimately have "corner_rest X Y w h ((?T ^^ ?N) c)" by (simp add: corner_rest_def)
      then show ?thesis by (rule fin)
    qed
  qed
qed

lemma flags_fold: "foldl (\<lambda>anyMoving r. snd r \<or> anyMoving) b rs = (b \<or> (\<exists>r\<in>set rs. snd r))"
  by (induction rs arbitrary: b) auto

lemma ranks_stationary:
  assumes "length cs = 4"
  shows "rankOf_of NO_MOTION cs = [0, 1, 2, 3]"
proof -
  have a: "map (\<lambda>c. 0 :: real) cs ! i = 0" if "i < 4" for i using that assms by simp
  have "sorted (map (\<lambda>a. map (\<lambda>c. 0 :: real) cs ! a) [0, 1, 2, 3])" by (simp add: a)
  then have s: "sort_key (\<lambda>a. map (\<lambda>c. 0 :: real) cs ! a) [0, 1, 2, 3] = [0, 1, 2, 3]"
    by (rule sort_key_id_if_sorted)
  have u: "[0..<4] = [0, 1, 2, 3]" by (simp add: upt_rec)
  have r: "replicate 4 (0::nat) = [0, 0, 0, 0]" by (simp add: numeral_eq_Suc)
  have "rankOf_of NO_MOTION cs
      = foldl (\<lambda>r i. r[sort_key (\<lambda>a. map (\<lambda>c. 0 :: real) cs ! a) [0, 1, 2, 3] ! i := i])
          (replicate 4 0) [0..<4]"
    by (simp add: rankOf_of_def Let_def NO_MOTION_def)
  also have "\<dots> = [0, 1, 2, 3]" unfolding s u r by simp
  finally show ?thesis .
qed

lemma squish_step_stationary:
  assumes l: "length (corners cs) = 4"
  shows "corners (fst (CursorSquish_step anim dyn dt NO_MOTION cs))
       = map (\<lambda>i. fst (squish_corner anim dyn dt NO_MOTION (sq_target cs) [0, 1, 2, 3] i (corners cs ! i))) [0..<4]"
    and "sq_target (fst (CursorSquish_step anim dyn dt NO_MOTION cs)) = sq_target cs"
    and "snd (CursorSquish_step anim dyn dt NO_MOTION cs)
       = (\<exists>i<4. snd (squish_corner anim dyn dt NO_MOTION (sq_target cs) [0, 1, 2, 3] i (corners cs ! i)))"
proof -
  show "corners (fst (CursorSquish_step anim dyn dt NO_MOTION cs))
       = map (\<lambda>i. fst (squish_corner anim dyn dt NO_MOTION (sq_target cs) [0, 1, 2, 3] i (corners cs ! i))) [0..<4]"
    by (simp add: CursorSquish_step_def Let_def ranks_stationary [OF l] l comp_def)
  show "sq_target (fst (CursorSquish_step anim dyn dt NO_MOTION cs)) = sq_target cs"
    by (simp add: CursorSquish_step_def Let_def)
  have "snd (CursorSquish_step anim dyn dt NO_MOTION cs)
      = (\<exists>i\<in>set [0..<4]. snd (squish_corner anim dyn dt NO_MOTION (sq_target cs) [0, 1, 2, 3] i (corners cs ! i)))"
    by (simp add: CursorSquish_step_def Let_def ranks_stationary [OF l] l flags_fold
        del: upt_Suc set_upt) 
  then show "snd (CursorSquish_step anim dyn dt NO_MOTION cs)
       = (\<exists>i<4. snd (squish_corner anim dyn dt NO_MOTION (sq_target cs) [0, 1, 2, 3] i (corners cs ! i)))"
    by auto
qed

lemma stationary_corners:
  assumes l: "length (corners cs) = 4"
  shows "length (corners (fst (stationary_ticks anim dyn dt n cs))) = 4
     \<and> sq_target (fst (stationary_ticks anim dyn dt n cs)) = sq_target cs
     \<and> (\<forall>i<4. corners (fst (stationary_ticks anim dyn dt n cs)) ! i
          = ((\<lambda>c. fst (squish_corner anim dyn dt NO_MOTION (sq_target cs) [0, 1, 2, 3] i c)) ^^ n)
              (corners cs ! i))"
proof (induction n)
  case 0
  then show ?case using l by simp
next
  case (Suc n)
  let ?u = "fst (stationary_ticks anim dyn dt n cs)"
  from Suc have lu: "length (corners ?u) = 4" and tu: "sq_target ?u = sq_target cs"
    and cu: "\<forall>i<4. corners ?u ! i
          = ((\<lambda>c. fst (squish_corner anim dyn dt NO_MOTION (sq_target cs) [0, 1, 2, 3] i c)) ^^ n)
              (corners cs ! i)" by simp_all
  show ?case
    using squish_step_stationary(1,2) [OF lu, of anim dyn dt] cu
    by (simp add: tu)
qed

lemma squish_corner_update:
  "squish_corner anim dyn dt NO_MOTION tg [0, 1, 2, 3] i c
     = Corner_update anim dyn dt (t_cx tg) (t_cy tg) (t_w tg) (t_h tg)
         (if [0, 1, 2, 3] ! i < length (rankFactors dyn) then rankFactors dyn ! ([0, 1, 2, 3] ! i) else 1)
         \<lparr>useShort = False, leadingness = real ([0, 1, 2, 3] ! i) / 3\<rparr> c"
  by (simp add: squish_corner_def Let_def NO_MOTION_def)

lemma finite_max_index:
  fixes k :: nat
  assumes "\<forall>i<k. \<exists>N. \<forall>n\<ge>N. P i n"
  shows "\<exists>N. \<forall>n\<ge>N. \<forall>i<k. P i (n :: nat)"
  using assms
proof (induction k)
  case 0
  then show ?case by simp
next
  case (Suc k)
  then obtain N1 where N1: "\<forall>n\<ge>N1. \<forall>i<k. P i n" by auto
  from Suc.prems obtain N2 where N2: "\<forall>n\<ge>N2. P k n" by auto
  show ?case
  proof (intro exI [of _ "max N1 N2"] allI impI)
    fix n i assume "max N1 N2 \<le> n" "i < Suc k"
    then show "P i n" using N1 N2 by (cases "i = k") auto
  qed
qed

text \<open>The caret jumps 100px to the right; the top-left corner then relaxes along a closed form.\<close>

lemma first_seen_corner0:
  "corners squish_first_seen ! 0
     = \<lparr>rel = \<lparr>px = - 1 / 2, py = - 1 / 2\<rparr>, cx = - 4, cy = - 9,
        sx = \<lparr>pos = 0, vel = 0, tau = 25 / 100\<rparr>, sy = \<lparr>pos = 0, vel = 0, tau = 25 / 100\<rparr>,
        pdx = - 4, pdy = - 9\<rparr>"
  "length (corners squish_first_seen) = 4"
  "sq_last squish_first_seen = \<lparr>l_cx = 0, l_cy = 0, l_t = 0\<rparr>"
  "map rel (corners squish_first_seen) = REL_CORNERS"
  by (simp_all add: squish_first_seen_def setTargetFromRect_def CursorSquish_new_def Let_def
      CursorSquish_step_def REL_CORNERS_def squish_corner_def Corner_update_def Corner_new_def
      getDest_def reset_def CFG_animation_def upt_rec)

lemma ranks_right:
  assumes "map rel cs = REL_CORNERS"
  shows "rankOf_of \<lparr>m_dx = 100, m_dy = 0, m_dist = 100, m_useShort = False\<rparr> cs = [0, 2, 3, 1]"
proof -
  have n: "normalize2 100 0 = \<lparr>px = 1, py = 0\<rparr>"
    by (simp add: normalize2_def hypot_zero_right)
  have "map (\<lambda>c. px (rel c)) cs = map px (map rel cs)" by simp
  also have "\<dots> = [- (1 / 2), 1 / 2, 1 / 2, - (1 / 2)]" unfolding assms by (simp add: REL_CORNERS_def)
  finally have a: "map (\<lambda>c. px (rel c)) cs = [- (1 / 2), 1 / 2, 1 / 2, - (1 / 2)]" .
  have s: "sort_key (\<lambda>a. [- (1 / 2), 1 / 2, 1 / 2, - (1 / 2) :: real] ! a) [0, 1, 2, 3] = [0, 3, 1, 2]"
    by simp
  have u: "[0..<4] = [0, 1, 2, 3]" by (simp add: upt_rec)
  have r: "replicate 4 (0::nat) = [0, 0, 0, 0]" by (simp add: numeral_eq_Suc)
  have "rankOf_of \<lparr>m_dx = 100, m_dy = 0, m_dist = 100, m_useShort = False\<rparr> cs
      = foldl (\<lambda>r i. r[sort_key (\<lambda>a. map (\<lambda>c. px (rel c)) cs ! a) [0, 1, 2, 3] ! i := i])
          (replicate 4 0) [0..<4]"
    by (simp add: rankOf_of_def Let_def n)
  also have "\<dots> = [0, 2, 3, 1]" unfolding a s u r by simp
  finally show ?thesis .
qed

lemma jump_tau: "corner_tau CFG_animation CFG_dynamics (8 / 10) \<lparr>useShort = False, leadingness = 0\<rparr> = 1 / 5"
  by (simp add: corner_tau_def CFG_animation_def CFG_dynamics_def)

lemma jump_stretch: "maxTrailDistanceFactor CFG_dynamics * max 8 18 = 144"
  by (simp add: CFG_dynamics_def)

lemma after_jump_state:
  "length (corners squish_after_jump) = 4"
  "sq_target squish_after_jump = \<lparr>t_cx = 100, t_cy = 0, t_w = 8, t_h = 18\<rparr>"
  "corners squish_after_jump ! 0
     = fst (Corner_update CFG_animation CFG_dynamics (1 / 60) 100 0 8 18 (8 / 10)
              \<lparr>useShort = False, leadingness = 0\<rparr> (corners squish_first_seen ! 0))"
proof -
  have st: "setTargetFromRect CFG_animation \<lparr>r_left = 96, r_top = - 9, r_width = 8, r_height = 18\<rparr>
        squish_first_seen
      = (squish_first_seen\<lparr>sq_target := \<lparr>t_cx = 100, t_cy = 0, t_w = 8, t_h = 18\<rparr>,
            sq_last := \<lparr>l_cx = 100, l_cy = 0, l_t = 0\<rparr>\<rparr>,
         \<lparr>m_dx = 100, m_dy = 0, m_dist = 100, m_useShort = False\<rparr>)"
    by (simp add: setTargetFromRect_def Let_def first_seen_corner0(3) hypot_zero_right CFG_animation_def)
  have rk: "rankOf_of \<lparr>m_dx = 100, m_dy = 0, m_dist = 100, m_useShort = False\<rparr>
      (corners squish_first_seen) = [0, 2, 3, 1]"
    by (rule ranks_right) (rule first_seen_corner0(4))
  show "length (corners squish_after_jump) = 4"
    by (simp add: squish_after_jump_def st CursorSquish_step_def Let_def first_seen_corner0(2))
  show "sq_target squish_after_jump = \<lparr>t_cx = 100, t_cy = 0, t_w = 8, t_h = 18\<rparr>"
    by (simp add: squish_after_jump_def st CursorSquish_step_def Let_def)
  show "corners squish_after_jump ! 0
     = fst (Corner_update CFG_animation CFG_dynamics (1 / 60) 100 0 8 18 (8 / 10)
              \<lparr>useShort = False, leadingness = 0\<rparr> (corners squish_first_seen ! 0))"
    by (simp add: squish_after_jump_def st CursorSquish_step_def Let_def first_seen_corner0(2)
        rk squish_corner_def CFG_dynamics_def del: upt_Suc)
qed

lemma exp_minus4: "1 / 81 \<le> exp (- 4 :: real)"
proof -
  have "exp (4 :: real) = exp (of_nat 4 * 1)" by simp
  also have "\<dots> = exp (1 :: real) ^ 4" by (rule exp_of_nat_mult)
  also have "\<dots> \<le> 3 ^ 4" by (intro power_mono exp_le) simp
  finally have "exp (4 :: real) \<le> 81" by simp
  then have "1 / 81 \<le> 1 / exp (4 :: real)" by (intro divide_left_mono) simp_all
  then show ?thesis by (simp add: exp_minus inverse_eq_divide)
qed

lemma jump_offset_bounds:
  assumes "k \<le> 12"
  shows "1 \<le> \<bar>jump_offset k\<bar>" and "\<bar>jump_offset k\<bar> \<le> 100"
proof -
  define c where "c = exp (- (1 / 3 :: real))"
  have c0: "0 < c" and c1: "c \<le> 1" by (simp_all add: c_def)
  have ck: "c ^ k = exp (- (real k / 3))"
  proof -
    have "exp (of_nat k * (- (1 / 3 :: real))) = exp (- (1 / 3)) ^ k" by (rule exp_of_nat_mult)
    then show ?thesis by (simp add: c_def)
  qed
  have "c ^ 12 = exp (- (real 12 / 3))"
  proof -
    have "exp (of_nat 12 * (- (1 / 3 :: real))) = exp (- (1 / 3)) ^ 12" by (rule exp_of_nat_mult)
    then show ?thesis by (simp add: c_def)
  qed
  then have c12: "1 / 81 \<le> c ^ 12" using exp_minus4 by simp
  have "c ^ 12 \<le> c ^ k" using assms c0 c1 by (intro power_decreasing) simp_all
  then have lo: "1 / 81 \<le> c ^ k" using c12 by linarith
  have a: "\<bar>jump_offset k\<bar> = 100 * ((1 + real k / 3) * c ^ k)"
    using c0 by (simp add: jump_offset_def c_def abs_mult)
  have "1 * (1 / 81) \<le> (1 + real k / 3) * c ^ k"
    using lo c0 by (intro mult_mono) simp_all
  then show "1 \<le> \<bar>jump_offset k\<bar>" unfolding a by simp
  have "(1 + real k / 3) * exp (- (real k / 3)) \<le> exp (real k / 3) * exp (- (real k / 3))"
    by (intro mult_right_mono exp_ge_add_one_self) simp
  then have "(1 + real k / 3) * c ^ k \<le> 1" by (simp add: ck exp_minus)
  then show "\<bar>jump_offset k\<bar> \<le> 100" unfolding a by simp
qed

lemma jump_flow_step:
  assumes "k \<le> 11"
  shows "CritDamped1D_step (1 / 60) \<lparr>pos = jump_offset k, vel = jump_velocity k, tau = 1 / 5\<rparr>
     = (\<lparr>pos = jump_offset (Suc k), vel = jump_velocity (Suc k), tau = 1 / 5\<rparr>, True)"
proof -
  have b: "1 \<le> \<bar>jump_offset k\<bar>" using assms by (intro jump_offset_bounds) simp
  have b': "1 \<le> \<bar>jump_offset (Suc k)\<bar>" using assms by (intro jump_offset_bounds) simp
  have nb: "\<not> \<bar>jump_offset k\<bar> < 1 / 1000" using b by simp
  have e: "exp (- (20 * (1 / 60 :: real))) = exp (- (1 / 3))" by simp
  have p: "(jump_offset k + (jump_offset k * 20 + jump_velocity k) * (1 / 60)) * exp (- (1 / 3))
      = jump_offset (Suc k)"
    by (simp add: jump_offset_def jump_velocity_def algebra_simps)
  have v: "exp (- (1 / 3)) * (- jump_offset k * 20 - (jump_offset k * 20 + jump_velocity k) * (1 / 60) * 20
          + (jump_offset k * 20 + jump_velocity k))
      = jump_velocity (Suc k)"
    by (simp add: jump_offset_def jump_velocity_def algebra_simps)
  have f: "(1 / 100 \<le> \<bar>jump_offset (Suc k)\<bar>) = True" using b' by simp
  show ?thesis
    unfolding CritDamped1D_step_def Let_def
    using nb by (simp add: p [simplified] v [simplified] f [simplified])
qed

lemma jump_axis_iter:
  assumes "k \<le> 12"
  shows "(axis_tick (1 / 60) (1 / 5) 144 ^^ k) (- 100, 0) = (jump_offset k, jump_velocity k)"
  using assms
proof (induction k)
  case 0
  then show ?case by (simp add: jump_offset_def jump_velocity_def)
next
  case (Suc k)
  then have k: "k \<le> 11" and ih: "(axis_tick (1 / 60) (1 / 5) 144 ^^ k) (- 100, 0) = (jump_offset k, jump_velocity k)"
    by simp_all
  have b: "\<bar>jump_offset (Suc k)\<bar> \<le> 100" using Suc.prems by (intro jump_offset_bounds) simp
  then have cl: "clamp (jump_offset (Suc k)) (- 144) 144 = jump_offset (Suc k)"
    by (intro clamp_id) linarith+
  have "(axis_tick (1 / 60) (1 / 5) 144 ^^ Suc k) (- 100, 0)
      = axis_tick (1 / 60) (1 / 5) 144 ((axis_tick (1 / 60) (1 / 5) 144 ^^ k) (- 100, 0))"
    by simp
  also have "\<dots> = axis_tick (1 / 60) (1 / 5) 144 (jump_offset k, jump_velocity k)"
    by (simp only: ih)
  also have "\<dots> = (jump_offset (Suc k), jump_velocity (Suc k))"
    by (simp add: axis_tick_def Let_def jump_flow_step [OF k] cl)
  finally show ?case .
qed

lemma after_jump_corner0:
  "\<not> pdx (corners squish_after_jump ! 0) < - 10000"
  "getDest (corners squish_after_jump ! 0) 100 0 8 18 = \<lparr>px = 96, py = - 9\<rparr>"
  "(cx (corners squish_after_jump ! 0) - 96, vel (sx (corners squish_after_jump ! 0)))
     = (jump_offset 1, jump_velocity 1)"
proof -
  let ?c = "corners squish_first_seen ! 0"
  have obs: "\<not> pdx ?c < - 10000" by (simp add: first_seen_corner0(1))
  have d: "getDest ?c 100 0 8 18 = \<lparr>px = 96, py = - 9\<rparr>"
    by (simp add: first_seen_corner0(1) getDest_def)
  note u = Corner_update_observed [OF obs, of CFG_animation CFG_dynamics "1 / 60" 100 0 8 18 "8 / 10"
      "\<lparr>useShort = False, leadingness = 0\<rparr>", unfolded d jump_tau jump_stretch,
      folded after_jump_state(3)]
  show "\<not> pdx (corners squish_after_jump ! 0) < - 10000" using u(3) by simp
  have "rel (corners squish_after_jump ! 0) = rel ?c" by (rule u(5))
  then show "getDest (corners squish_after_jump ! 0) 100 0 8 18 = \<lparr>px = 96, py = - 9\<rparr>"
    using d by (simp add: getDest_def)
  have "(cx (corners squish_after_jump ! 0) - 96, vel (sx (corners squish_after_jump ! 0)))
      = axis_tick (1 / 60) (1 / 5) 144 (- 100, 0)"
    using u(1) by (simp add: first_seen_corner0(1))
  also have "\<dots> = (axis_tick (1 / 60) (1 / 5) 144 ^^ 1) (- 100, 0)" by simp
  also have "\<dots> = (jump_offset 1, jump_velocity 1)" by (rule jump_axis_iter) simp
  finally show "(cx (corners squish_after_jump ! 0) - 96, vel (sx (corners squish_after_jump ! 0)))
     = (jump_offset 1, jump_velocity 1)" .
qed

lemma stationary_corner0:
  assumes "n \<le> 11"
  defines "c \<equiv> corners (fst (stationary_ticks CFG_animation CFG_dynamics (1 / 60) n squish_after_jump)) ! 0"
  shows "\<not> pdx c < - 10000" and "getDest c 100 0 8 18 = \<lparr>px = 96, py = - 9\<rparr>"
    and "(cx c - 96, vel (sx c)) = (jump_offset (Suc n), jump_velocity (Suc n))"
proof -
  let ?c0 = "corners squish_after_jump ! 0"
  let ?T = "\<lambda>c. fst (Corner_update CFG_animation CFG_dynamics (1 / 60) 100 0 8 18 (8 / 10)
              \<lparr>useShort = False, leadingness = 0\<rparr> c)"
  have sc: "(\<lambda>c. fst (squish_corner CFG_animation CFG_dynamics (1 / 60) NO_MOTION
              (sq_target squish_after_jump) [0, 1, 2, 3] 0 c)) = ?T"
    by (simp only: squish_corner_update after_jump_state(2)) (simp add: CFG_dynamics_def)
  from stationary_corners [OF after_jump_state(1), of CFG_animation CFG_dynamics "1 / 60" n]
  have c: "c = (?T ^^ n) ?c0" unfolding c_def sc [symmetric] by simp
  have far: "\<not> px (getDest ?c0 100 0 8 18) < - 10000" by (simp add: after_jump_corner0(2))
  note it = corner_axis_iter [OF after_jump_corner0(1) far, where anim = CFG_animation
      and dyn = CFG_dynamics and dt = "1 / 60" and rf = "8 / 10"
      and snap = "\<lparr>useShort = False, leadingness = 0\<rparr>" and n = n,
      unfolded after_jump_corner0(2) jump_tau jump_stretch, folded c]
  show "\<not> pdx c < - 10000" using it by simp
  have "rel c = rel ?c0" using it by simp
  then show "getDest c 100 0 8 18 = \<lparr>px = 96, py = - 9\<rparr>"
    using after_jump_corner0(2) by (simp add: getDest_def)
  have "(cx c - 96, vel (sx c)) = (axis_tick (1 / 60) (1 / 5) 144 ^^ n) (jump_offset 1, jump_velocity 1)"
    using it by (simp add: after_jump_corner0(3))
  also have "(jump_offset 1, jump_velocity 1) = (axis_tick (1 / 60) (1 / 5) 144 ^^ 1) (- 100, 0)"
    by (rule jump_axis_iter [symmetric]) simp
  also have "(axis_tick (1 / 60) (1 / 5) 144 ^^ n) ((axis_tick (1 / 60) (1 / 5) 144 ^^ 1) (- 100, 0))
      = (axis_tick (1 / 60) (1 / 5) 144 ^^ (Suc n)) (- 100, 0)"
    by (simp add: funpow_swap1)
  also have "\<dots> = (jump_offset (Suc n), jump_velocity (Suc n))"
    using assms(1) by (intro jump_axis_iter) simp
  finally show "(cx c - 96, vel (sx c)) = (jump_offset (Suc n), jump_velocity (Suc n))" .
qed

text \<open>
  Claim C8, amended. With a stationary target and ticks of a fixed positive length, every
  corner converges: there is a number of ticks, depending on the tick length, the time
  constants and the offsets and velocities at the start, after which the spring offset
  of every corner is exactly zero on both axes and the controller reports not moving.
\<close>

theorem corners_settle_eventually:
  assumes l: "length (corners cs) = 4" and dt: "0 < dt"
    and M: "0 \<le> maxTrailDistanceFactor dyn * max (t_w (sq_target cs)) (t_h (sq_target cs))"
  shows "\<exists>N. \<forall>n\<ge>N. \<not> snd (stationary_ticks anim dyn dt n cs)
          \<and> (\<forall>c\<in>set (corners (fst (stationary_ticks anim dyn dt n cs))).
                pos (sx c) = 0 \<and> pos (sy c) = 0)"
proof -
  let ?tg = "sq_target cs"
  let ?U = "\<lambda>i c. squish_corner anim dyn dt NO_MOTION ?tg [0, 1, 2, 3] i c"
  have "\<forall>i<4. \<exists>N. \<forall>n\<ge>N. corner_rest (t_cx ?tg) (t_cy ?tg) (t_w ?tg) (t_h ?tg)
            (((\<lambda>c. fst (?U i c)) ^^ n) (corners cs ! i))"
    unfolding squish_corner_update using corner_eventually_rest [OF dt M] by blast
  from finite_max_index [OF this] obtain N where
    N: "\<forall>n\<ge>N. \<forall>i<4. corner_rest (t_cx ?tg) (t_cy ?tg) (t_w ?tg) (t_h ?tg)
            (((\<lambda>c. fst (?U i c)) ^^ n) (corners cs ! i))" by blast
  show ?thesis
  proof (intro exI [of _ "Suc N"] allI impI)
    fix n assume "Suc N \<le> n"
    then obtain m where n: "n = Suc m" and m: "N \<le> m" by (cases n) auto
    let ?u = "fst (stationary_ticks anim dyn dt m cs)"
    from stationary_corners [OF l, of anim dyn dt m]
    have lu: "length (corners ?u) = 4" and tu: "sq_target ?u = ?tg"
      and cu: "\<forall>i<4. corners ?u ! i = ((\<lambda>c. fst (?U i c)) ^^ m) (corners cs ! i)" by simp_all
    have rest: "corner_rest (t_cx ?tg) (t_cy ?tg) (t_w ?tg) (t_h ?tg) (corners ?u ! i)" if "i < 4" for i
      using N m cu that by simp
    have st: "\<not> snd (?U i (corners ?u ! i)) \<and> pos (sx (fst (?U i (corners ?u ! i)))) = 0
        \<and> pos (sy (fst (?U i (corners ?u ! i)))) = 0" if "i < 4" for i
      unfolding squish_corner_update using corner_rest_step [OF M rest [OF that]] by simp
    have e: "stationary_ticks anim dyn dt n cs = CursorSquish_step anim dyn dt NO_MOTION ?u"
      by (simp add: n)
    have f: "\<not> snd (stationary_ticks anim dyn dt n cs)"
      unfolding e squish_step_stationary(3) [OF lu] tu using st by blast
    have "corners (fst (stationary_ticks anim dyn dt n cs))
        = map (\<lambda>i. fst (?U i (corners ?u ! i))) [0..<4]"
      unfolding e squish_step_stationary(1) [OF lu] tu ..
    then have "\<forall>c\<in>set (corners (fst (stationary_ticks anim dyn dt n cs))).
                pos (sx c) = 0 \<and> pos (sy c) = 0"
      using st by auto
    with f show "\<not> snd (stationary_ticks anim dyn dt n cs)
          \<and> (\<forall>c\<in>set (corners (fst (stationary_ticks anim dyn dt n cs))).
                pos (sx c) = 0 \<and> pos (sy c) = 0)" by simp
  qed
qed

theorem corners_settle_eventually_witness:
  "length (corners squish_after_jump) = 4 \<and> (0 :: real) < 1 / 60
   \<and> 0 \<le> maxTrailDistanceFactor CFG_dynamics
          * max (t_w (sq_target squish_after_jump)) (t_h (sq_target squish_after_jump))
   \<and> (\<exists>N. \<forall>n\<ge>N. \<not> snd (stationary_ticks CFG_animation CFG_dynamics (1 / 60) n squish_after_jump)
          \<and> (\<forall>c\<in>set (corners (fst (stationary_ticks CFG_animation CFG_dynamics (1 / 60) n
                                      squish_after_jump))).
                pos (sx c) = 0 \<and> pos (sy c) = 0))"
proof -
  have h: "length (corners squish_after_jump) = 4" "(0 :: real) < 1 / 60"
    "0 \<le> maxTrailDistanceFactor CFG_dynamics
          * max (t_w (sq_target squish_after_jump)) (t_h (sq_target squish_after_jump))"
    by (simp_all add: after_jump_state CFG_dynamics_def)
  from corners_settle_eventually [OF h, of CFG_animation] h show ?thesis by blast
qed

text \<open>
  Claim C8 as stated fails: after the tick in which the caret has jumped 100px and ten
  further ticks of 1/60 s with the target at rest, the horizontal spring of the top-left
  corner is still more than 1px from rest and the controller still reports moving.
\<close>

theorem corners_not_settled_counterexample:
  "snd (stationary_ticks CFG_animation CFG_dynamics (1 / 60) 10 squish_after_jump)
   \<and> 1 / 100 \<le> \<bar>pos (sx (corners (fst (stationary_ticks CFG_animation CFG_dynamics (1 / 60) 10
                                        squish_after_jump)) ! 0))\<bar>"
proof -
  let ?u = "fst (stationary_ticks CFG_animation CFG_dynamics (1 / 60) 9 squish_after_jump)"
  let ?c = "corners ?u ! 0"
  have n9: "(9::nat) \<le> 11" by simp
  note s9 = stationary_corner0 [OF n9]
  from stationary_corners [OF after_jump_state(1), of CFG_animation CFG_dynamics "1 / 60" 9]
  have lu: "length (corners ?u) = 4" and tu: "sq_target ?u = sq_target squish_after_jump" by simp_all
  have e: "stationary_ticks CFG_animation CFG_dynamics (1 / 60) 10 squish_after_jump
      = CursorSquish_step CFG_animation CFG_dynamics (1 / 60) NO_MOTION ?u"
  proof -
    have "(10::nat) = Suc 9" by simp
    then show ?thesis by (simp only: stationary_ticks.simps)
  qed
  have sc: "squish_corner CFG_animation CFG_dynamics (1 / 60) NO_MOTION (sq_target ?u) [0, 1, 2, 3] 0 ?c
      = Corner_update CFG_animation CFG_dynamics (1 / 60) 100 0 8 18 (8 / 10)
          \<lparr>useShort = False, leadingness = 0\<rparr> ?c"
    by (simp only: squish_corner_update tu after_jump_state(2)) (simp add: CFG_dynamics_def)
  have x: "cx ?c - 96 = jump_offset 10" "vel (sx ?c) = jump_velocity 10"
    using s9(3) by simp_all
  note up = Corner_update_observed [OF s9(1), of CFG_animation CFG_dynamics "1 / 60" 100 0 8 18
      "8 / 10" "\<lparr>useShort = False, leadingness = 0\<rparr>", unfolded s9(2) jump_tau, simplified,
      unfolded x]
  have k10: "(10::nat) \<le> 11" by simp
  have fl: "CritDamped1D_step (1 / 60) \<lparr>pos = jump_offset 10, vel = jump_velocity 10, tau = 1 / 5\<rparr>
     = (\<lparr>pos = jump_offset 11, vel = jump_velocity 11, tau = 1 / 5\<rparr>, True)"
    using jump_flow_step [OF k10] by simp
  have flag: "snd (squish_corner CFG_animation CFG_dynamics (1 / 60) NO_MOTION (sq_target ?u) [0, 1, 2, 3] 0 ?c)"
    unfolding sc using up(8) by (simp add: fl)
  have "snd (stationary_ticks CFG_animation CFG_dynamics (1 / 60) 10 squish_after_jump)"
    unfolding e squish_step_stationary(3) [OF lu] using flag by (intro exI [of _ 0]) simp
  moreover have "corners (fst (stationary_ticks CFG_animation CFG_dynamics (1 / 60) 10 squish_after_jump)) ! 0
      = fst (squish_corner CFG_animation CFG_dynamics (1 / 60) NO_MOTION (sq_target ?u) [0, 1, 2, 3] 0 ?c)"
    unfolding e squish_step_stationary(1) [OF lu] by (simp add: upt_rec)
  then have "pos (sx (corners (fst (stationary_ticks CFG_animation CFG_dynamics (1 / 60) 10 squish_after_jump)) ! 0))
      = jump_offset 11"
    unfolding sc using up(6) by (simp add: fl)
  moreover have "1 \<le> \<bar>jump_offset 11\<bar>" by (rule jump_offset_bounds) simp
  ultimately show ?thesis by simp
qed

subsection \<open>Stacked hex cells\<close>



































end
